(* ===== verification/Prelude.thy ===== *)
theory Prelude
  imports Main "HOL-Library.Word" "HOL-Library.AList"
begin

text \<open>
  Shared vocabulary of the edgedns client-query development: the machine types the
  Rust sources use (\<open>u16\<close>, \<open>u64\<close>, \<open>usize\<close> on a 64-bit target), Rust's saturating
  arithmetic on unsigned integers, and the weight of an association list, which models
  a \<open>HashMap\<close> in its iteration order (\<open>map.keys().next()\<close> is the first key of the
  list).  The lemmas are collected in \<open>saturating_simps\<close> and \<open>alist_total_simps\<close> so
  that the component theories can name them as a group.
\<close>

named_theorems saturating_simps "unat readings of Rust's saturating operations"
named_theorems alist_total_simps "weights of association lists under AList operations"

type_synonym u8 = "8 word"
type_synonym u16 = "16 word"
type_synonym u32 = "32 word"
type_synonym u64 = "64 word"
type_synonym usize = "64 word"
type_synonym addr = nat
type_synonym packet = "u8 list"

section \<open>Rust's saturating arithmetic\<close>

text \<open>\<open>x.saturating_add(y)\<close> and \<open>x.saturating_sub(y)\<close> on an unsigned integer type.\<close>

definition saturating_add :: "'a::len word \<Rightarrow> 'a word \<Rightarrow> 'a word" where
  "saturating_add x y = (if 2 ^ LENGTH('a) \<le> unat x + unat y then - 1 else x + y)"

definition saturating_sub :: "'a::len word \<Rightarrow> 'a word \<Rightarrow> 'a word" where
  "saturating_sub x y = (if x < y then 0 else x - y)"

lemma unat_saturating_add [saturating_simps]:
  fixes x y :: "'a::len word"
  shows "unat (saturating_add x y) = min (unat x + unat y) (2 ^ LENGTH('a) - 1)"
proof (cases "2 ^ LENGTH('a) \<le> unat x + unat y")
  case True
  then show ?thesis
    by (simp add: saturating_add_def unsigned_minus_1_eq_mask mask_eq_exp_minus_1)
next
  case False
  then have "unat (x + y) = unat x + unat y"
    using unat_add_lem [of x y] by simp
  with False show ?thesis
    by (simp add: saturating_add_def)
qed

lemma unat_saturating_sub [saturating_simps]:
  fixes x y :: "'a::len word"
  shows "unat (saturating_sub x y) = unat x - unat y"
  by (simp add: saturating_sub_def unat_sub word_less_nat_alt not_less word_le_nat_alt)

lemma unat_word_of_int_in_range:
  "0 \<le> r \<Longrightarrow> r < 2 ^ LENGTH('a) \<Longrightarrow> unat (word_of_int r :: 'a::len word) = nat r"
  by (simp add: unat_eq_nat_uint uint_word_of_int)

lemma map_filter_append:
  "List.map_filter f (xs @ ys) = List.map_filter f xs @ List.map_filter f ys"
  by (simp add: List.map_filter_def)

section \<open>Weights of association lists\<close>

text \<open>
  \<open>alist_total w al\<close> adds the weight \<open>w v\<close> of every value of the list; with
  \<open>w = length \<circ> client_queries\<close> it is the number of clients waiting in a table of
  pending queries.
\<close>

definition alist_total :: "('v \<Rightarrow> nat) \<Rightarrow> ('k \<times> 'v) list \<Rightarrow> nat" where
  "alist_total w al = sum_list (map (w \<circ> snd) al)"

lemma alist_total_Nil [simp, alist_total_simps]: "alist_total w [] = 0"
  by (simp add: alist_total_def)

lemma alist_total_Cons [simp, alist_total_simps]:
  "alist_total w (p # al) = w (snd p) + alist_total w al"
  by (simp add: alist_total_def)

lemma alist_total_entry_le [alist_total_simps]:
  "map_of al k = Some v \<Longrightarrow> w v \<le> alist_total w al"
  by (induction al) (auto split: if_splits)

lemma alist_total_delete [alist_total_simps]:
  "distinct (map fst al) \<Longrightarrow> map_of al k = Some v \<Longrightarrow>
   alist_total w (AList.delete k al) + w v = alist_total w al"
proof (induction al)
  case Nil
  then show ?case by simp
next
  case (Cons p al)
  show ?case
  proof (cases "fst p = k")
    case True
    with Cons.prems have "k \<notin> fst ` set al" and "snd p = v"
      by auto
    then have "AList.delete k al = al"
      by simp
    with True \<open>snd p = v\<close> show ?thesis by simp
  next
    case False
    with Cons show ?thesis by simp
  qed
qed

lemma alist_total_update_new [alist_total_simps]:
  "map_of al k = None \<Longrightarrow> alist_total w (AList.update k v al) = alist_total w al + w v"
  by (induction al) (auto split: if_splits)

lemma alist_total_update_same [alist_total_simps]:
  "map_of al k = Some v0 \<Longrightarrow> w v = w v0 \<Longrightarrow> alist_total w (AList.update k v al) = alist_total w al"
  by (induction al) (auto split: if_splits)

lemma alist_total_update_bigger [alist_total_simps]:
  "map_of al k = Some v0 \<Longrightarrow> w v = Suc (w v0) \<Longrightarrow>
   alist_total w (AList.update k v al) = Suc (alist_total w al)"
  by (induction al) (auto split: if_splits)

lemma alist_total_pos [alist_total_simps]:
  "(\<forall>p \<in> set al. 0 < w (snd p)) \<Longrightarrow> al \<noteq> [] \<Longrightarrow> 0 < alist_total w al"
  by (cases al) auto

lemma set_update_values:
  "snd ` set (AList.update k v al) \<subseteq> insert v (snd ` set al)"
  by (induction al) auto

lemma set_delete_values:
  "set (AList.delete k al) \<subseteq> set al"
  by (simp add: AList.delete_eq)

end
