(* ===== verification/JumpHash.thy ===== *)
theory JumpHash
  imports Prelude
begin

text \<open>
  Jump consistent hashing (Lamping and Veach), the \<open>JumpHasher::slot\<close> that the
  Uniform load-balancing policy of \<open>pick_upstream\<close> calls.  The crate is not part of
  the repository, so the loop is modelled from the algorithm the specification names:
  a 64-bit linear congruential step on the key and a jump to
  \<open>(b + 1) * 2^31 / ((key >> 33) + 1)\<close>.  The floating-point quotient of the crate is
  read here as exact integer division.  The theory proves that the loop terminates,
  that a slot is always below the slot count, and the consistency property that gives
  the hash its name: growing the slot count by one moves a key to the new slot or
  leaves it where it was.
\<close>

definition jump_lcg :: "u64 \<Rightarrow> u64" where
  "jump_lcg h = h * 2862933555777941757 + 1"

definition jump_next :: "u64 \<Rightarrow> nat \<Rightarrow> nat" where
  "jump_next h b = ((b + 1) * 2 ^ 31) div (unat (drop_bit 33 h) + 1)"

text \<open>\<open>while j < slot_count { b = j; key = lcg(key); j = next(key, b) }\<close>; \<open>b\<close> starts at \<open>-1\<close>.\<close>

function jump_loop :: "u64 \<Rightarrow> int \<Rightarrow> nat \<Rightarrow> nat \<Rightarrow> int" where
  "jump_loop h b j n =
     (if j < n then jump_loop (jump_lcg h) (int j) (jump_next (jump_lcg h) j) n else b)"
  by pat_completeness auto

lemma drop_bit_33_bound: "unat (drop_bit 33 (h :: u64)) + 1 \<le> 2 ^ 31"
proof -
  have "unat (drop_bit 33 h) = drop_bit 33 (unat h)"
    by (rule unat_drop_bit_eq)
  also have "\<dots> = unat h div 2 ^ 33"
    by (simp add: drop_bit_eq_div)
  finally have "unat (drop_bit 33 h) = unat h div 2 ^ 33" .
  moreover have "unat h < 2 ^ 64"
    using unsigned_less [of h] by simp
  ultimately show ?thesis by simp
qed

lemma jump_next_gt: "b < jump_next h b"
proof -
  define d where "d = unat (drop_bit 33 h) + 1"
  have d: "d \<le> 2 ^ 31" "0 < d"
    using drop_bit_33_bound [of h] by (simp_all add: d_def)
  have "(b + 1) * d \<le> (b + 1) * 2 ^ 31"
    using d(1) by (rule mult_le_mono2)
  then have "((b + 1) * d) div d \<le> ((b + 1) * 2 ^ 31) div d"
    by (rule div_le_mono)
  moreover have "((b + 1) * d) div d = b + 1"
    using d(2) by (rule nonzero_mult_div_cancel_right [OF gr_implies_not0])
  ultimately have "b + 1 \<le> ((b + 1) * 2 ^ 31) div d"
    by simp
  then show ?thesis by (simp add: jump_next_def d_def)
qed

termination jump_loop
  by (relation "measure (\<lambda>(h, b, j, n). n - j)") (auto simp: jump_next_gt diff_less_mono2)

declare jump_loop.simps [simp del]

text \<open>\<open>slot(key, slot_count)\<close> returns \<open>b as u32\<close>.\<close>

definition jump_slot :: "u64 \<Rightarrow> u32 \<Rightarrow> u32" where
  "jump_slot key slot_count = word_of_int (jump_loop key (-1) 0 (unat slot_count))"

subsection \<open>Range of the loop\<close>

lemma jump_loop_below: "b < int n \<Longrightarrow> jump_loop h b j n < int n"
proof (induction h b j n rule: jump_loop.induct)
  case (1 h b j n)
  then show ?case
    by (cases "j < n") (simp_all add: jump_loop.simps [of h b j n])
qed

lemma jump_loop_nonneg: "0 \<le> b \<Longrightarrow> 0 \<le> jump_loop h b j n"
proof (induction h b j n rule: jump_loop.induct)
  case (1 h b j n)
  then show ?case
    by (cases "j < n") (simp_all add: jump_loop.simps [of h b j n])
qed

lemma jump_loop_first_range:
  assumes "0 < n"
  shows "0 \<le> jump_loop h (-1) 0 n \<and> jump_loop h (-1) 0 n < int n"
proof -
  have eq: "jump_loop h (-1) 0 n = jump_loop (jump_lcg h) 0 (jump_next (jump_lcg h) 0) n"
    using assms by (simp add: jump_loop.simps [of h "-1" 0 n])
  have "0 \<le> jump_loop (jump_lcg h) 0 (jump_next (jump_lcg h) 0) n"
    by (rule jump_loop_nonneg) simp
  moreover have "jump_loop (jump_lcg h) 0 (jump_next (jump_lcg h) 0) n < int n"
    using assms by (intro jump_loop_below) simp
  ultimately show ?thesis by (simp add: eq)
qed

text \<open>One more slot: the key stays or moves to the new slot \<open>n\<close>.\<close>

lemma jump_loop_Suc:
  "jump_loop h b j (Suc n) = jump_loop h b j n \<or> jump_loop h b j (Suc n) = int n"
proof (induction h b j n rule: jump_loop.induct)
  case (1 h b j n)
  consider "j < n" | "j = n" | "n < j" by linarith
  then show ?case
  proof cases
    case 1
    with "1.IH" show ?thesis
      by (simp add: jump_loop.simps [of h b j n] jump_loop.simps [of h b j "Suc n"])
  next
    case 2
    let ?h = "jump_lcg h"
    have "Suc n \<le> jump_next ?h n"
      using jump_next_gt [of n ?h] by simp
    then have "jump_loop ?h (int n) (jump_next ?h n) (Suc n) = int n"
      by (simp add: jump_loop.simps [of ?h "int n" "jump_next ?h n" "Suc n"])
    with 2 show ?thesis
      by (simp add: jump_loop.simps [of h b n "Suc n"])
  next
    case 3
    then show ?thesis
      by (simp add: jump_loop.simps [of h b j n] jump_loop.simps [of h b j "Suc n"])
  qed
qed

subsection \<open>Properties of the slot\<close>

text \<open>C15: for a positive slot count, the slot of every key is below the slot count.\<close>

theorem jump_slot_below:
  assumes "0 < slot_count"
  shows "jump_slot key slot_count < slot_count"
proof -
  define m where "m = unat slot_count"
  define r where "r = jump_loop key (-1) 0 m"
  have "0 < m"
    using assms by (simp add: m_def unat_gt_0)
  then have r: "0 \<le> r" "r < int m"
    using jump_loop_first_range [of m key] by (simp_all add: r_def)
  have "m < 2 ^ 32"
    using unsigned_less [of slot_count] by (simp add: m_def)
  then have "int m < 2 ^ 32"
    by simp
  with r have "unat (word_of_int r :: u32) = nat r"
    by (intro unat_word_of_int_in_range) simp_all
  then have "unat (jump_slot key slot_count) = nat r"
    by (simp add: jump_slot_def r_def m_def)
  moreover have "nat r < m"
    using r by (simp add: nat_less_iff)
  ultimately show ?thesis
    by (simp add: word_less_nat_alt m_def)
qed

lemma jump_slot_below_witness: "(0::u32) < 3 \<and> jump_slot 12345 3 < 3"
  using jump_slot_below [of 3 12345] by simp

text \<open>
  C16: consistency.  Growing the slot count by one either leaves the slot of a key
  unchanged or moves the key to the new slot, the old count.
\<close>

theorem jump_slot_consistent:
  assumes "slot_count \<noteq> - 1"
  shows "jump_slot key (slot_count + 1) = jump_slot key slot_count \<or>
         jump_slot key (slot_count + 1) = slot_count"
proof -
  have "1 + slot_count \<noteq> 0"
    using assms by (simp add: add.commute eq_neg_iff_add_eq_0)
  then have "unat (slot_count + 1) = Suc (unat slot_count)"
    using unatSuc [of slot_count] by (simp add: add.commute)
  then have eq: "jump_loop key (-1) 0 (unat (slot_count + 1)) =
                 jump_loop key (-1) 0 (unat slot_count) \<or>
                 jump_loop key (-1) 0 (unat (slot_count + 1)) = int (unat slot_count)"
    using jump_loop_Suc [of key "-1" 0 "unat slot_count"] by simp
  have "word_of_int (int (unat slot_count)) = slot_count"
    by simp
  with eq show ?thesis
    unfolding jump_slot_def by auto
qed

lemma jump_slot_consistent_witness:
  "(2::u32) \<noteq> - 1 \<and> (jump_slot 12345 3 = jump_slot 12345 2 \<or> jump_slot 12345 3 = 2)"
  using jump_slot_consistent [of 2 12345] by simp

end
