(* ===== verification/Pending_Query.thy ===== *)
theory Pending_Query
  imports Prelude
begin

text \<open>
  The data of \<open>src/.../pending_query.rs\<close> and the query types it refers to.
  A \<open>NormalizedQuestion\<close> is reduced to what the client-query core reads of it: its
  key (name, type and class, the \<open>NormalizedQuestionKey\<close>), the hash of its qname under
  the jump hasher's keys (the SipHash inside \<open>JumpHasher::slot\<close>) and its transaction
  id.  A \<open>ClientQuery\<close> carries the question, the upstream servers it may be routed to
  and an opaque reply handle.  The oneshot sender \<open>done_tx\<close> of a \<open>PendingQuery\<close> is
  an identifier of its channel, so that the timer that awaits the receiver can be
  matched with it.  \<open>PendingQueries\<close>, a \<open>HashMap\<close> behind a lock, is an association
  list in the map's iteration order.
\<close>

record normalized_question =
  nq_key :: nat
  nq_qname_hash :: u64
  nq_tid :: u16

text \<open>The minimal question sent upstream: the key and the randomised upstream tid.\<close>

record normalized_question_minimal =
  nqm_key :: nat
  nqm_tid :: u16

record client_query =
  cq_normalized_question :: normalized_question
  cq_upstream_servers_for_query :: "addr list"
  cq_reply :: nat
  cq_custom_hash :: "u64 \<times> u64"

record pending_query_key =
  normalized_question_key :: nat
  custom_hash :: "u64 \<times> u64"

definition pending_query_key_new :: "nat \<Rightarrow> pending_query_key" where
  "pending_query_key_new k = \<lparr>normalized_question_key = k, custom_hash = (0, 0)\<rparr>"

record pending_query =
  normalized_question_minimal :: normalized_question_minimal
  local_port :: u16
  client_queries :: "client_query list"
  ts :: nat
  upstream_server_idx :: nat
  probed_socket_addr :: "addr option"
  done_tx :: nat
  pq_custom_hash :: "u64 \<times> u64"

text \<open>
  \<open>PendingQuery::new\<close>: one client attached, no probe recorded, the local port of
  the chosen outbound socket, the time \<open>Instant::recent()\<close>.
\<close>

definition pending_query_new ::
  "normalized_question_minimal \<Rightarrow> nat \<Rightarrow> u16 \<Rightarrow> client_query \<Rightarrow> nat \<Rightarrow> nat \<Rightarrow> pending_query" where
  "pending_query_new nqm idx port cq tx now =
     \<lparr>normalized_question_minimal = nqm, local_port = port, client_queries = [cq],
      ts = now, upstream_server_idx = idx, probed_socket_addr = None, done_tx = tx,
      pq_custom_hash = (0, 0)\<rparr>"

type_synonym pending_queries = "(pending_query_key \<times> pending_query) list"

text \<open>
  What the handler does on its sockets: a query sent to an upstream server or to an
  offline server as a probe, from the outbound socket with the given local port, and a
  response packet sent to a client through its reply handle.
\<close>

datatype io_effect =
    UpstreamSend u16 addr normalized_question_minimal
  | ProbeSend u16 addr normalized_question_minimal
  | ClientResponse nat packet

text \<open>The number of clients waiting in a table.\<close>

definition clients_in :: "pending_queries \<Rightarrow> nat" where
  "clients_in pqs = alist_total (length \<circ> client_queries) pqs"

lemma clients_in_Nil [simp]: "clients_in [] = 0"
  by (simp add: clients_in_def)

lemma pending_query_new_clients [simp]:
  "client_queries (pending_query_new nqm idx port cq tx now) = [cq]"
  by (simp add: pending_query_new_def)

end
