(* ===== verification/Load_Balancer.thy ===== *)
theory Load_Balancer
  imports JumpHash Pending_Query
begin

text \<open>
  \<open>NormalizedQuestion::pick_upstream\<close> of \<open>client_queries_handler.rs\<close>: the choice
  of an upstream index among the live ones under the three load-balancing modes.  As
  written, the method reads a slice \<open>upstream_servers_live\<close> that is not in scope and
  indexes the address-keyed \<open>HashMap\<close> with a \<open>usize\<close>; the model takes the live
  indices and the pending-query count of each index (\<open>load\<close>) as arguments, which is the
  reading the specification (section 9) prescribes.  \<open>sort_by_key\<close> is stable, as
  \<open>sort_key\<close> is.
\<close>

datatype load_balancing_mode = Fallback | Uniform | P2

datatype pick_error = AllUpstreamsDown

definition pick_upstream ::
  "normalized_question \<Rightarrow> (nat \<Rightarrow> u64) \<Rightarrow> nat list \<Rightarrow> bool \<Rightarrow> load_balancing_mode \<Rightarrow> pick_error + nat" where
  "pick_upstream nq load upstream_servers_live is_retry lbmode =
     (let live_count = length upstream_servers_live in
      if live_count = 0 then Inl AllUpstreamsDown
      else (case lbmode of
        Fallback \<Rightarrow> Inr (upstream_servers_live ! 0)
      | Uniform \<Rightarrow>
          (let i = unat (jump_slot (nq_qname_hash nq) (of_nat live_count));
               i = (if is_retry then (i + 1) mod live_count else i)
           in Inr (upstream_servers_live ! i))
      | P2 \<Rightarrow>
          (let busy_map = sort_key snd (map (\<lambda>i. (i, load i)) upstream_servers_live);
               i = (if length busy_map = 1 then 0
                    else (unat (nq_tid nq) + (if is_retry then 1 else 0)) mod 2)
           in Inr (fst (busy_map ! i)))))"

subsection \<open>The Uniform slot is an index of the live list\<close>

text \<open>
  \<open>live_count as u32\<close> truncates; the slot is below the live count all the same: a
  truncated count of 0 gives the slot \<open>-1 as u32\<close>, which is below any count that
  truncates to 0.
\<close>

lemma uniform_slot_bound:
  assumes "0 < n"
  shows "unat (jump_slot key (of_nat n)) < n"
proof (cases "unat (of_nat n :: u32) = 0")
  case True
  then have "jump_loop key (-1) 0 (unat (of_nat n :: u32)) = -1"
    by (simp add: jump_loop.simps)
  then have "unat (jump_slot key (of_nat n)) = 2 ^ 32 - 1"
    by (simp add: jump_slot_def True unsigned_minus_1_eq_mask mask_eq_exp_minus_1)
  moreover have "2 ^ 32 \<le> n"
  proof -
    from True have "n mod 2 ^ 32 = 0"
      by (simp add: unat_of_nat)
    with assms show ?thesis
      by (metis mod_less not_less gr_implies_not0)
  qed
  ultimately show ?thesis by simp
next
  case False
  define m where "m = unat (of_nat n :: u32)"
  define r where "r = jump_loop key (-1) 0 m"
  from False have r: "0 \<le> r" "r < int m"
    using jump_loop_first_range [of m key] by (simp_all add: m_def r_def)
  have m: "m \<le> n" "m < 2 ^ 32"
    by (simp_all add: m_def unat_of_nat)
  then have "int m < 2 ^ 32"
    by simp
  with r have "unat (word_of_int r :: u32) = nat r"
    by (intro unat_word_of_int_in_range) simp_all
  then have "unat (jump_slot key (of_nat n)) = nat r"
    by (simp add: jump_slot_def r_def m_def)
  with r m(1) show ?thesis by linarith
qed

subsection \<open>Facts about the P2 busy map\<close>

definition busy_map :: "(nat \<Rightarrow> u64) \<Rightarrow> nat list \<Rightarrow> (nat \<times> u64) list" where
  "busy_map load live = sort_key snd (map (\<lambda>i. (i, load i)) live)"

lemma busy_map_length [simp]: "length (busy_map load live) = length live"
  by (simp add: busy_map_def)

lemma busy_map_fst_set: "fst ` set (busy_map load live) = set live"
  by (simp add: busy_map_def image_image)

lemma busy_map_snd: "p \<in> set (busy_map load live) \<Longrightarrow> snd p = load (fst p)"
  by (auto simp add: busy_map_def)

lemma busy_map_sorted: "sorted (map snd (busy_map load live))"
  by (simp add: busy_map_def)

lemma busy_map_distinct:
  assumes "distinct live"
  shows "distinct (map fst (busy_map load live))"
proof -
  let ?ys = "map (\<lambda>i. (i, load i)) live"
  have "distinct ?ys"
    using assms by (simp add: distinct_map inj_on_def)
  moreover have "inj_on fst (set ?ys)"
    by (auto simp add: inj_on_def)
  ultimately show ?thesis
    by (simp add: busy_map_def distinct_map)
qed

lemma pick_upstream_P2:
  "upstream_servers_live \<noteq> [] \<Longrightarrow>
   pick_upstream nq load upstream_servers_live is_retry P2 =
     Inr (fst (busy_map load upstream_servers_live !
       (if length upstream_servers_live = 1 then 0
        else (unat (nq_tid nq) + (if is_retry then 1 else 0)) mod 2)))"
  by (simp add: pick_upstream_def busy_map_def Let_def)

lemma pick_upstream_P2_first:
  "upstream_servers_live \<noteq> [] \<Longrightarrow>
   pick_upstream nq load upstream_servers_live False P2 =
     Inr (fst (busy_map load upstream_servers_live !
       (if length upstream_servers_live = 1 then 0 else unat (nq_tid nq) mod 2)))"
  by (simp add: pick_upstream_def busy_map_def Let_def)

lemma pick_upstream_Uniform:
  "upstream_servers_live \<noteq> [] \<Longrightarrow>
   pick_upstream nq load upstream_servers_live is_retry Uniform =
     (let i = unat (jump_slot (nq_qname_hash nq) (of_nat (length upstream_servers_live))) in
      Inr (upstream_servers_live ! (if is_retry then (i + 1) mod length upstream_servers_live else i)))"
  by (simp add: pick_upstream_def Let_def)

lemma busy_map_nth_fst:
  assumes "k < length live"
  shows "fst (busy_map load live ! k) \<in> set live"
proof -
  from assms have "busy_map load live ! k \<in> set (busy_map load live)"
    by simp
  then show ?thesis
    by (metis busy_map_fst_set imageI)
qed

lemma busy_map_head_least:
  assumes "live \<noteq> []" and "j \<in> set live"
  shows "load (fst (busy_map load live ! 0)) \<le> load j"
proof -
  let ?bm = "busy_map load live"
  from assms(2) obtain p where p: "p \<in> set ?bm" "fst p = j"
    using busy_map_fst_set [of load live] by (metis imageE)
  then obtain k where k: "k < length ?bm" "?bm ! k = p"
    by (metis in_set_conv_nth)
  have "snd (?bm ! 0) \<le> snd (?bm ! k)"
    using busy_map_sorted [of load live] k(1) by (auto simp: sorted_iff_nth_mono)
  moreover have "snd (?bm ! 0) = load (fst (?bm ! 0))"
  proof -
    have "?bm ! 0 \<in> set ?bm"
      using assms(1) by simp
    then show ?thesis
      by (rule busy_map_snd)
  qed
  ultimately show ?thesis
    using busy_map_snd [OF p(1)] k(2) p(2) by simp
qed

lemma sorted_filter_less_nth:
  assumes "sorted (map snd b)" and "k < length b"
  shows "length (filter (\<lambda>p. snd p < snd (b ! k)) b) \<le> k"
proof -
  have "filter (\<lambda>p. snd p < snd (b ! k)) (drop k b) = []"
  proof (rule filter_False [rule_format, THEN sym, THEN sym])
    fix p assume "p \<in> set (drop k b)"
    then obtain j where j: "j < length (drop k b)" "drop k b ! j = p"
      by (metis in_set_conv_nth)
    then have "snd (b ! k) \<le> snd (b ! (k + j))"
      using assms by (auto simp: sorted_iff_nth_mono)
    with j show "\<not> snd p < snd (b ! k)"
      by (simp add: add.commute)
  qed
  then have "length (filter (\<lambda>p. snd p < snd (b ! k)) b) =
             length (filter (\<lambda>p. snd p < snd (b ! k)) (take k b))"
    by (metis append_Nil2 append_take_drop_id filter_append)
  also have "\<dots> \<le> k"
    using length_filter_le [of _ "take k b"] by (simp add: le_trans)
  finally show ?thesis .
qed

lemma busy_map_filter_length:
  "length (filter (\<lambda>p. snd p < x) (busy_map load live)) = length (filter (\<lambda>j. load j < x) live)"
  by (simp add: busy_map_def filter_sort filter_map comp_def)

subsection \<open>Properties of the choice\<close>

text \<open>
  C9: \<open>pick_upstream\<close> fails exactly when no upstream server is live, and then with
  \<open>AllUpstreamsDown\<close>, whatever the mode.
\<close>

theorem pick_upstream_error_iff_empty:
  "(pick_upstream nq load live is_retry lbmode = Inl AllUpstreamsDown) \<longleftrightarrow> live = []"
  by (cases lbmode) (simp_all add: pick_upstream_def Let_def)

text \<open>C10: every index \<open>pick_upstream\<close> returns is one of the live indices, in every mode.\<close>

theorem pick_upstream_in_live:
  assumes "pick_upstream nq load live is_retry lbmode = Inr i"
  shows "i \<in> set live"
proof -
  have ne: "live \<noteq> []"
    using assms by (auto simp: pick_upstream_def)
  show ?thesis
  proof (cases lbmode)
    case Fallback
    with assms ne nth_mem [of 0 live] show ?thesis by (simp add: pick_upstream_def)
  next
    case Uniform
    let ?k = "unat (jump_slot (nq_qname_hash nq) (of_nat (length live)))"
    have "?k < length live"
      using ne by (intro uniform_slot_bound) simp
    moreover have "(?k + 1) mod length live < length live"
      using ne by simp
    ultimately show ?thesis
      using assms ne Uniform by (auto simp: pick_upstream_Uniform Let_def split: if_splits)
  next
    case P2
    define k where "k = (if length live = 1 then 0
                         else (unat (nq_tid nq) + (if is_retry then 1 else 0)) mod 2)"
    have "k < length live"
    proof (cases "length live = 1")
      case True
      then show ?thesis by (simp add: k_def)
    next
      case False
      have "0 < length live" using ne by simp
      with False have "2 \<le> length live" by linarith
      moreover have "(unat (nq_tid nq) + (if is_retry then 1 else 0)) mod 2 < 2"
        by simp
      ultimately show ?thesis using False by (simp add: k_def)
    qed
    moreover have "i = fst (busy_map load live ! k)"
      using assms ne P2 by (simp add: pick_upstream_P2 k_def)
    ultimately show ?thesis
      by (simp add: busy_map_nth_fst)
  qed
qed

lemma pick_upstream_in_live_witness:
  "pick_upstream \<lparr>nq_key = 1, nq_qname_hash = 12345, nq_tid = 7\<rparr> (\<lambda>i. of_nat i :: u64) [3, 5] False Fallback = Inr 3 \<and> (3::nat) \<in> set [3, 5]"
  using pick_upstream_in_live [of "\<lparr>nq_key = 1, nq_qname_hash = 12345, nq_tid = 7\<rparr>" "(\<lambda>i. of_nat i :: u64)" "[3, 5]" False Fallback 3]
  by (simp add: pick_upstream_def)

text \<open>
  C11: in the Uniform mode, with at least two live servers, the retry is sent to another
  server than the first attempt: the slot advances by one modulo the live count.
\<close>

theorem pick_upstream_uniform_retry_differs:
  assumes "distinct live" and "2 \<le> length live"
  shows "pick_upstream nq load live False Uniform \<noteq> pick_upstream nq load live True Uniform"
proof -
  let ?n = "length live"
  let ?k = "unat (jump_slot (nq_qname_hash nq) (of_nat ?n))"
  have ne: "live \<noteq> []" using assms(2) by (cases live) auto
  have k: "?k < ?n"
    using ne by (intro uniform_slot_bound) simp
  have "(?k + 1) mod ?n \<noteq> ?k"
  proof (cases "?k + 1 < ?n")
    case True
    then show ?thesis by simp
  next
    case False
    with k have "?k + 1 = ?n" by simp
    with assms(2) show ?thesis by simp
  qed
  moreover have "(?k + 1) mod ?n < ?n"
    using ne by simp
  ultimately have "live ! ?k \<noteq> live ! ((?k + 1) mod ?n)"
    using assms(1) k by (simp add: nth_eq_iff_index_eq)
  then show ?thesis
    using ne by (simp add: pick_upstream_Uniform Let_def)
qed

lemma pick_upstream_uniform_retry_differs_witness:
  "distinct [4, 7 :: nat] \<and> 2 \<le> length [4, 7 :: nat] \<and>
   pick_upstream \<lparr>nq_key = 1, nq_qname_hash = 12345, nq_tid = 7\<rparr> (\<lambda>i. of_nat i :: u64) [4, 7] False Uniform \<noteq> pick_upstream \<lparr>nq_key = 1, nq_qname_hash = 12345, nq_tid = 7\<rparr> (\<lambda>i. of_nat i :: u64) [4, 7] True Uniform"
  using pick_upstream_uniform_retry_differs [of "[4, 7]" "\<lparr>nq_key = 1, nq_qname_hash = 12345, nq_tid = 7\<rparr>" "(\<lambda>i. of_nat i :: u64)"] by simp

text \<open>
  C12: in the P2 mode, a first attempt of a query with an even transaction id goes to a
  live server whose pending-query count is the least of all live servers.
\<close>

theorem pick_upstream_p2_least_loaded:
  assumes "even (unat (nq_tid nq))"
    and "pick_upstream nq load live False P2 = Inr i"
    and "j \<in> set live"
  shows "load i \<le> load j"
proof -
  have ne: "live \<noteq> []" using assms(3) by auto
  have "unat (nq_tid nq) mod 2 = 0"
    using assms(1) by presburger
  then have "(if length live = 1 then 0 else unat (nq_tid nq) mod 2) = 0"
    by (simp only: if_cancel)
  then have "pick_upstream nq load live False P2 = Inr (fst (busy_map load live ! 0))"
    using pick_upstream_P2_first [OF ne, of nq load] by simp
  then have "i = fst (busy_map load live ! 0)"
    using assms(2) by simp
  with ne assms(3) show ?thesis
    by (simp add: busy_map_head_least)
qed

lemma pick_upstream_p2_least_loaded_witness:
  "even (unat (nq_tid \<lparr>nq_key = 1, nq_qname_hash = 0, nq_tid = 2\<rparr>)) \<and>
   pick_upstream \<lparr>nq_key = 1, nq_qname_hash = 0, nq_tid = 2\<rparr> (\<lambda>i. of_nat (10 - i)) [3, 8] False P2 = Inr 8 \<and>
   (3::nat) \<in> set [3, 8] \<and> (\<lambda>i. of_nat (10 - i) :: u64) 8 \<le> (\<lambda>i. of_nat (10 - i)) 3"
  using pick_upstream_p2_least_loaded [of "\<lparr>nq_key = 1, nq_qname_hash = 0, nq_tid = 2\<rparr>"
      "\<lambda>i. of_nat (10 - i)" "[3, 8]" 8 3]
  by (simp add: pick_upstream_def)

text \<open>
  C13: in the P2 mode, with at least two distinct live servers, the retry goes to the
  other of the two least-loaded servers: the parity \<open>(tid + is_retry) & 1\<close> flips.
\<close>

theorem pick_upstream_p2_retry_differs:
  assumes "distinct live" and "2 \<le> length live"
  shows "pick_upstream nq load live False P2 \<noteq> pick_upstream nq load live True P2"
proof -
  let ?bm = "busy_map load live"
  let ?t = "unat (nq_tid nq)"
  have ne: "live \<noteq> []" and n1: "length live \<noteq> 1"
    using assms(2) by auto
  have idx: "?t mod 2 < length ?bm" "(?t + 1) mod 2 < length ?bm"
    using assms(2) by simp_all
  have "?t mod 2 \<noteq> (?t + 1) mod 2"
    by presburger
  then have "fst (?bm ! (?t mod 2)) \<noteq> fst (?bm ! ((?t + 1) mod 2))"
    using busy_map_distinct [OF assms(1), of load] idx
    by (simp add: distinct_conv_nth)
  then show ?thesis
    using ne n1 by (simp add: pick_upstream_P2)
qed

lemma pick_upstream_p2_retry_differs_witness:
  "distinct [4, 7 :: nat] \<and> 2 \<le> length [4, 7 :: nat] \<and>
   pick_upstream \<lparr>nq_key = 1, nq_qname_hash = 12345, nq_tid = 7\<rparr> (\<lambda>i. of_nat i :: u64) [4, 7] False P2 \<noteq> pick_upstream \<lparr>nq_key = 1, nq_qname_hash = 12345, nq_tid = 7\<rparr> (\<lambda>i. of_nat i :: u64) [4, 7] True P2"
  using pick_upstream_p2_retry_differs [of "[4, 7]" "\<lparr>nq_key = 1, nq_qname_hash = 12345, nq_tid = 7\<rparr>" "(\<lambda>i. of_nat i :: u64)"] by simp

text \<open>
  C14: in the Fallback mode every attempt, first or retry, goes to the first live
  server.
\<close>

theorem pick_upstream_fallback_first:
  assumes "live \<noteq> []"
  shows "pick_upstream nq load live is_retry Fallback = Inr (hd live)"
  using assms by (simp add: pick_upstream_def hd_conv_nth)

lemma pick_upstream_fallback_first_witness:
  "[2, 9 :: nat] \<noteq> [] \<and> pick_upstream \<lparr>nq_key = 1, nq_qname_hash = 12345, nq_tid = 7\<rparr> (\<lambda>i. of_nat i :: u64) [2, 9] True Fallback = Inr 2"
  using pick_upstream_fallback_first [of "[2, 9]" "\<lparr>nq_key = 1, nq_qname_hash = 12345, nq_tid = 7\<rparr>" "(\<lambda>i. of_nat i :: u64)" True] by simp


text \<open>
  C26: in the P2 mode every attempt, first or retry, goes to one of the two least-loaded
  live servers: at most one live server has a smaller pending-query count than the one
  chosen (specification, section 4.2).
\<close>

theorem pick_upstream_p2_two_least_loaded:
  assumes "pick_upstream nq load live is_retry P2 = Inr i"
  shows "length (filter (\<lambda>j. load j < load i) live) \<le> 1"
proof -
  let ?bm = "busy_map load live"
  have ne: "live \<noteq> []"
    using assms by (auto simp: pick_upstream_def)
  define k where "k = (if length live = 1 then 0
                       else (unat (nq_tid nq) + (if is_retry then 1 else 0)) mod 2)"
  have k1: "k \<le> 1"
    using mod_less_divisor [of 2 "unat (nq_tid nq)"] mod_less_divisor [of 2 "Suc (unat (nq_tid nq))"]
    by (auto simp: k_def)
  have klen: "k < length live"
  proof (cases "length live = 1")
    case True then show ?thesis by (simp add: k_def)
  next
    case False
    moreover have "0 < length live" using ne by simp
    ultimately have "2 \<le> length live" by linarith
    then show ?thesis by (simp add: k_def)
  qed
  have i: "i = fst (?bm ! k)"
    using assms pick_upstream_P2 [OF ne, of nq load is_retry] by (simp add: k_def)
  have "?bm ! k \<in> set ?bm" using klen by simp
  then have li: "load i = snd (?bm ! k)"
    using i busy_map_snd by metis
  have "length (filter (\<lambda>p. snd p < snd (?bm ! k)) ?bm) \<le> k"
    using busy_map_sorted klen by (intro sorted_filter_less_nth) simp_all
  with k1 li busy_map_filter_length [of "load i" load live] show ?thesis
    by simp
qed

lemma pick_upstream_p2_two_least_loaded_witness:
  "pick_upstream \<lparr>nq_key = 1, nq_qname_hash = 0, nq_tid = 2\<rparr> (\<lambda>i. of_nat (10 - i) :: u64) [3, 8, 5] True P2
     = Inr 5 \<and>
   length (filter (\<lambda>j. (\<lambda>i. of_nat (10 - i) :: u64) j < (\<lambda>i. of_nat (10 - i)) 5) [3, 8, 5]) = 1"
proof -
  have pick: "pick_upstream \<lparr>nq_key = 1, nq_qname_hash = 0, nq_tid = 2\<rparr> (\<lambda>i. of_nat (10 - i) :: u64)
      [3, 8, 5] True P2 = Inr 5"
    by (simp add: pick_upstream_def)
  have "length (filter (\<lambda>j. (\<lambda>i. of_nat (10 - i) :: u64) j < (\<lambda>i. of_nat (10 - i)) 5) [3, 8, 5]) \<le> 1"
    using pick_upstream_p2_two_least_loaded [OF pick] .
  moreover have "length (filter (\<lambda>j. (\<lambda>i. of_nat (10 - i) :: u64) j < (\<lambda>i. of_nat (10 - i)) 5) [3, 8, 5]) \<noteq> 0"
    by simp
  ultimately show ?thesis
    using pick by simp
qed

end
