(* ===== verification/Pending_Table.thy ===== *)
theory Pending_Table
  imports Pending_Query
begin

text \<open>
  The table of pending queries and the two handler methods that change it without
  sending anything: \<open>cap_pending_queries\<close> (admission control: evict the first entry
  of the map when too many clients wait) and \<open>maybe_add_to_existing_pending_query\<close>
  (coalescing: attach a client to the pending query of its key).  The fields they
  touch, the map, the atomic \<open>waiting_clients_count\<close> (a \<open>usize\<close> whose
  \<open>fetch_add\<close>/\<open>fetch_sub\<close> wrap) and the \<open>inflight_queries\<close> gauge, form the
  record \<open>pending_table\<close>; the handler state of theory \<open>Handler\<close> extends it, so the
  operations are stated for every extension (\<open>'a pending_table_scheme\<close>) and leave
  the extension alone.  The \<open>assert!\<close> of \<open>cap_pending_queries\<close> is the error
  \<open>AssertionFailed\<close>.

  \<open>table_inv\<close> is the invariant of the table: keys are unique, the counter equals the
  number of attached clients, no entry is empty, and at most \<open>max 1 max_waiting_clients\<close>
  clients wait.
\<close>

record pending_table =
  pending_queries :: pending_queries
  waiting_clients_count :: usize
  inflight_queries :: int

datatype table_error = AssertionFailed

definition cap_pending_queries ::
  "usize \<Rightarrow> 'a pending_table_scheme \<Rightarrow> table_error + bool \<times> 'a pending_table_scheme" where
  "cap_pending_queries max_waiting_clients t =
     (if waiting_clients_count t < max_waiting_clients then Inr (False, t)
      else (case pending_queries t of
        [] \<Rightarrow> Inr (False, t)
      | (key, _) # _ \<Rightarrow>
          (case map_of (pending_queries t) key of
            None \<Rightarrow> Inr (True, t)
          | Some pending_query \<Rightarrow>
              (let clients_count = length (client_queries pending_query);
                   prev_count = waiting_clients_count t
               in if unat prev_count < clients_count then Inl AssertionFailed
                  else Inr (True, t\<lparr>pending_queries := AList.delete key (pending_queries t),
                                   waiting_clients_count := prev_count - of_nat clients_count,
                                   inflight_queries := inflight_queries t - 1\<rparr>)))))"

definition maybe_add_to_existing_pending_query ::
  "pending_query_key \<Rightarrow> client_query \<Rightarrow> 'a pending_table_scheme \<Rightarrow> bool \<times> 'a pending_table_scheme" where
  "maybe_add_to_existing_pending_query key client_query t =
     (case map_of (pending_queries t) key of
       None \<Rightarrow> (False, t)
     | Some pending_query \<Rightarrow>
         (True, t\<lparr>pending_queries := AList.update key
                    (pending_query\<lparr>client_queries := client_queries pending_query @ [client_query]\<rparr>)
                    (pending_queries t),
                  waiting_clients_count := waiting_clients_count t + 1\<rparr>))"

definition waiting_limit :: "usize \<Rightarrow> nat" where
  "waiting_limit max_waiting_clients = max 1 (unat max_waiting_clients)"

definition table_inv :: "usize \<Rightarrow> 'a pending_table_scheme \<Rightarrow> bool" where
  "table_inv max_waiting_clients t \<longleftrightarrow>
     distinct (map fst (pending_queries t)) \<and>
     unat (waiting_clients_count t) = clients_in (pending_queries t) \<and>
     list_all (\<lambda>p. client_queries (snd p) \<noteq> []) (pending_queries t) \<and>
     clients_in (pending_queries t) \<le> waiting_limit max_waiting_clients"

subsection \<open>Arithmetic of the counter\<close>

lemma waiting_limit_bound: "waiting_limit m < 2 ^ 64"
  using unsigned_less [of m] by (simp add: waiting_limit_def)

lemma unat_count_add_one:
  assumes "unat (w :: usize) < waiting_limit m"
  shows "unat (w + 1) = Suc (unat w)"
proof -
  have "unat w + unat (1 :: usize) < 2 ^ LENGTH(64)"
    using assms waiting_limit_bound [of m] by simp
  then show ?thesis
    using unat_add_lem [of w 1] by simp
qed

lemma unat_count_sub:
  assumes "c \<le> unat (w :: usize)"
  shows "unat (w - of_nat c) = unat w - c"
proof -
  have "unat w < 2 ^ 64"
    using unsigned_less [of w] by simp
  with assms have "c < 2 ^ 64"
    by linarith
  then have c: "unat (of_nat c :: usize) = c"
    by (simp add: unat_of_nat)
  with assms have "of_nat c \<le> w"
    by (simp add: word_le_nat_alt)
  with c show ?thesis
    by (simp add: unat_sub)
qed

subsection \<open>Facts about the table\<close>

lemma clients_in_entry_le:
  "map_of pqs key = Some p \<Longrightarrow> length (client_queries p) \<le> clients_in pqs"
  unfolding clients_in_def by (drule alist_total_entry_le [where w = "length \<circ> client_queries"]) simp

lemma clients_in_delete:
  "distinct (map fst pqs) \<Longrightarrow> map_of pqs key = Some p \<Longrightarrow>
   clients_in (AList.delete key pqs) = clients_in pqs - length (client_queries p)"
  unfolding clients_in_def
  using alist_total_delete [of pqs key p "length \<circ> client_queries"] by simp

lemma clients_in_update_new:
  "map_of pqs key = None \<Longrightarrow>
   clients_in (AList.update key p pqs) = clients_in pqs + length (client_queries p)"
  unfolding clients_in_def by (simp add: alist_total_update_new)

lemma clients_in_update_same:
  "map_of pqs key = Some p0 \<Longrightarrow> length (client_queries p) = length (client_queries p0) \<Longrightarrow>
   clients_in (AList.update key p pqs) = clients_in pqs"
  unfolding clients_in_def by (simp add: alist_total_update_same)

lemma clients_in_update_append:
  "map_of pqs key = Some p0 \<Longrightarrow>
   clients_in (AList.update key (p0\<lparr>client_queries := client_queries p0 @ [c]\<rparr>) pqs) =
   Suc (clients_in pqs)"
  unfolding clients_in_def by (rule alist_total_update_bigger) simp_all

lemma list_all_update:
  "list_all P al \<Longrightarrow> P (k, v) \<Longrightarrow> list_all P (AList.update k v al)"
  by (induction al) auto

lemma list_all_delete:
  "list_all P al \<Longrightarrow> list_all P (AList.delete k al)"
  by (simp add: AList.delete_eq list_all_iff)

lemma clients_in_pos:
  "list_all (\<lambda>p. client_queries (snd p) \<noteq> []) pqs \<Longrightarrow> pqs \<noteq> [] \<Longrightarrow> 0 < clients_in pqs"
  unfolding clients_in_def by (rule alist_total_pos) (auto simp: list_all_iff)

lemmas table_simps = clients_in_delete clients_in_update_new clients_in_update_same
  clients_in_update_append distinct_update distinct_delete list_all_update list_all_delete

subsection \<open>The operations keep the invariant\<close>

lemma table_inv_cong:
  "pending_queries t' = pending_queries t \<Longrightarrow> waiting_clients_count t' = waiting_clients_count t \<Longrightarrow>
   table_inv m t' = table_inv m t"
  by (simp add: table_inv_def)

lemma table_inv_room_waiting:
  "table_inv m t \<Longrightarrow> clients_in (pending_queries t) < waiting_limit m \<Longrightarrow>
   unat (waiting_clients_count t) < waiting_limit m"
  by (simp add: table_inv_def)

text \<open>
  After admission control there is room for one more client: either fewer clients than
  the limit were waiting, or the table was empty, or a non-empty entry was evicted.  The
  assertion of the source never fails under the invariant.
\<close>

lemma cap_pending_queries_ok:
  assumes inv: "table_inv m t"
  shows "\<exists>b t'. cap_pending_queries m t = Inr (b, t') \<and> table_inv m t' \<and>
           clients_in (pending_queries t') < waiting_limit m \<and>
           pending_table.more t' = pending_table.more t"
proof (cases "waiting_clients_count t < m")
  case True
  then have "clients_in (pending_queries t) < waiting_limit m"
    using inv by (simp add: table_inv_def waiting_limit_def word_less_nat_alt)
  with True inv show ?thesis
    by (force simp add: cap_pending_queries_def)
next
  case False
  show ?thesis
  proof (cases "pending_queries t")
    case Nil
    with False inv show ?thesis
      by (force simp add: cap_pending_queries_def waiting_limit_def)
  next
    case (Cons e rest)
    obtain key p where e: "e = (key, p)" by fastforce
    let ?c = "length (client_queries p)"
    have look: "map_of (pending_queries t) key = Some p"
      using Cons e by simp
    have c_pos: "0 < ?c"
      using inv Cons e by (simp add: table_inv_def)
    have c_le: "?c \<le> unat (waiting_clients_count t)"
      using inv clients_in_entry_le [OF look] by (simp add: table_inv_def)
    have "\<exists>t'. cap_pending_queries m t = Inr (True, t') \<and>
            pending_queries t' = AList.delete key (pending_queries t) \<and>
            waiting_clients_count t' = waiting_clients_count t - of_nat ?c \<and>
            pending_table.more t' = pending_table.more t"
      using False Cons e c_le by (simp add: cap_pending_queries_def Let_def)
    then obtain t' where step: "cap_pending_queries m t = Inr (True, t')"
      and pqs: "pending_queries t' = AList.delete key (pending_queries t)"
      and wcc: "waiting_clients_count t' = waiting_clients_count t - of_nat ?c"
      and more: "pending_table.more t' = pending_table.more t"
      by blast
    have cnt: "clients_in (pending_queries t') = clients_in (pending_queries t) - ?c"
      using inv look pqs by (simp add: table_inv_def clients_in_delete)
    have le: "clients_in (pending_queries t) \<le> waiting_limit m"
      using inv by (simp add: table_inv_def)
    then have lim: "clients_in (pending_queries t) - ?c \<le> waiting_limit m"
      by (rule le_trans [OF diff_le_self])
    have "table_inv m t'"
      using inv c_le cnt lim pqs wcc
      by (simp add: table_inv_def unat_count_sub distinct_delete list_all_delete)
    moreover have "clients_in (pending_queries t') < waiting_limit m"
      using cnt le c_pos clients_in_entry_le [OF look] by linarith
    ultimately show ?thesis
      using step more by auto
  qed
qed

lemma maybe_add_to_existing_pending_query_None:
  "map_of (pending_queries t) key = None \<Longrightarrow>
   maybe_add_to_existing_pending_query key cq t = (False, t)"
  by (simp add: maybe_add_to_existing_pending_query_def)

lemma maybe_add_to_existing_pending_query_False:
  "maybe_add_to_existing_pending_query key cq t = (False, t') \<Longrightarrow>
   t' = t \<and> map_of (pending_queries t) key = None"
  by (auto simp add: maybe_add_to_existing_pending_query_def split: option.splits)

lemma maybe_add_to_existing_pending_query_inv:
  assumes "table_inv m t" and "clients_in (pending_queries t) < waiting_limit m"
    and "maybe_add_to_existing_pending_query key cq t = (b, t')"
  shows "table_inv m t' \<and> pending_table.more t' = pending_table.more t"
proof (cases "map_of (pending_queries t) key")
  case None
  with assms(3) show ?thesis
    using assms(1) by (simp add: maybe_add_to_existing_pending_query_def)
next
  case (Some p)
  have w: "unat (waiting_clients_count t + 1) = Suc (unat (waiting_clients_count t))"
    using assms(1,2) by (intro unat_count_add_one [of _ m]) (simp add: table_inv_def)
  from Some assms(3) show ?thesis
    using assms(1,2) w
    by (auto simp add: maybe_add_to_existing_pending_query_def table_inv_def
        clients_in_update_append distinct_update list_all_update)
qed

lemma table_inv_insert:
  assumes "table_inv m t" and "clients_in (pending_queries t) < waiting_limit m"
    and "map_of (pending_queries t) key = None" and "client_queries p = [cq]"
  shows "table_inv m (t\<lparr>waiting_clients_count := waiting_clients_count t + 1,
                        pending_queries := AList.update key p (pending_queries t)\<rparr>)"
proof -
  have w: "unat (waiting_clients_count t + 1) = Suc (unat (waiting_clients_count t))"
    using assms(1,2) by (intro unat_count_add_one [of _ m]) (simp add: table_inv_def)
  show ?thesis
    using assms w
    by (simp add: table_inv_def clients_in_update_new distinct_update list_all_update)
qed

lemma table_inv_remove:
  assumes "table_inv m t" and "map_of (pending_queries t) key = Some p"
  shows "table_inv m (t\<lparr>pending_queries := AList.delete key (pending_queries t),
                        waiting_clients_count :=
                          waiting_clients_count t - of_nat (length (client_queries p))\<rparr>)"
proof -
  have c_le: "length (client_queries p) \<le> unat (waiting_clients_count t)"
    using assms clients_in_entry_le [OF assms(2)] by (simp add: table_inv_def)
  have "clients_in (pending_queries t) \<le> waiting_limit m"
    using assms(1) by (simp add: table_inv_def)
  then have lim: "clients_in (pending_queries t) - length (client_queries p) \<le> waiting_limit m"
    by (rule le_trans [OF diff_le_self])
  show ?thesis
    using assms c_le lim
    by (simp add: table_inv_def clients_in_delete unat_count_sub distinct_delete list_all_delete)
qed

lemma table_inv_update_same:
  assumes "table_inv m t" and "map_of (pending_queries t) key = Some p"
    and "client_queries p' = client_queries p"
  shows "table_inv m (t\<lparr>pending_queries := AList.update key p' (pending_queries t)\<rparr>)"
proof -
  have "list_all (\<lambda>p. client_queries (snd p) \<noteq> []) (pending_queries t)"
    using assms(1) by (simp add: table_inv_def)
  then have "client_queries p \<noteq> []"
    using assms(2) by (force simp: list_all_iff dest: map_of_SomeD)
  with assms show ?thesis
    by (simp add: table_inv_def clients_in_update_same distinct_update list_all_update)
qed

end
