(* ===== verification/Upstream.thy ===== *)
theory Upstream
  imports Prelude
begin

text \<open>
  The upstream registry, \<open>upstream_servers_arc: HashMap<SocketAddr, UpstreamServer>\<close>
  of \<open>ClientQueriesHandler\<close>, as a map from socket addresses to server records.  The
  record keeps the fields the client-query core reads or writes: the address, the
  pending-query count (a \<open>u64\<close> updated with saturating arithmetic), the
  consecutive-failure counter, the offline flag and the time of the last probe.
  \<open>upstream_server.rs\<close> is not part of the repository: \<open>record_failure\<close> and
  \<open>record_success\<close> are modelled from the specification (section 4.1), without the
  probe scheduling and the RTT average that the core does not observe.
\<close>

record upstream_server =
  socket_addr :: addr
  pending_queries_count :: u64
  failures :: nat
  offline :: bool
  last_probe_ts :: "nat option"

type_synonym upstream_servers = "addr \<Rightarrow> upstream_server option"

definition record_failure :: "nat \<Rightarrow> upstream_server \<Rightarrow> upstream_server" where
  "record_failure max_failures us =
     us\<lparr>failures := Suc (failures us), offline := offline us \<or> max_failures \<le> Suc (failures us)\<rparr>"

definition record_success :: "upstream_server \<Rightarrow> upstream_server" where
  "record_success us = us\<lparr>failures := 0, offline := False\<rparr>"

text \<open>The two updates of the pending-query count that the handler performs.\<close>

definition pending_inc :: "upstream_server \<Rightarrow> upstream_server" where
  "pending_inc us = us\<lparr>pending_queries_count := saturating_add (pending_queries_count us) 1\<rparr>"

definition pending_dec :: "upstream_server \<Rightarrow> upstream_server" where
  "pending_dec us = us\<lparr>pending_queries_count := saturating_sub (pending_queries_count us) 1\<rparr>"

lemma record_failure_count [simp]:
  "pending_queries_count (record_failure m us) = pending_queries_count us"
  by (simp add: record_failure_def)

lemma record_failure_addr [simp]: "socket_addr (record_failure m us) = socket_addr us"
  by (simp add: record_failure_def)

lemma pending_inc_addr [simp]: "socket_addr (pending_inc us) = socket_addr us"
  by (simp add: pending_inc_def)

lemma pending_dec_addr [simp]: "socket_addr (pending_dec us) = socket_addr us"
  by (simp add: pending_dec_def)

lemma unat_pending_inc [saturating_simps]:
  "unat (pending_queries_count (pending_inc us)) =
   min (Suc (unat (pending_queries_count us))) (2 ^ 64 - 1)"
  by (simp add: pending_inc_def unat_saturating_add)

lemma unat_pending_dec [saturating_simps]:
  "unat (pending_queries_count (pending_dec us)) = unat (pending_queries_count us) - 1"
  by (simp add: pending_dec_def unat_saturating_sub)

lemma record_failure_offline:
  "max_failures \<le> Suc (failures us) \<Longrightarrow> offline (record_failure max_failures us)"
  by (simp add: record_failure_def)

end
