(* ===== verification/Probe.thy ===== *)
theory Probe
  imports Upstream Pending_Query
begin

text \<open>
  \<open>maybe_send_probe_to_offline_servers\<close> of \<open>client_queries_handler.rs\<close>, the
  ProbeSender of the specification.  The model follows the code as written: the
  candidate list is every server of \<open>upstream_servers_for_query\<close> that the registry
  knows (the filter never looks at the offline flag), one of them is drawn at random
  (\<open>sample mod len\<close> stands for \<open>Range::new(0, len).ind_sample\<close>: any index can be
  drawn), the probe is skipped when the drawn server was probed less than
  \<open>UPSTREAM_PROBES_DELAY_MS\<close> ago, and otherwise the query is sent to it.  The server
  records are copied out of the map (\<open>Some(&upstream_server) => Some(upstream_server)\<close>),
  so the new \<open>last_probe_ts\<close> is written to the copy and the registry comes back
  unchanged.  A send error (the \<open>io::Result\<close>) is not modelled: sends succeed.
\<close>

definition maybe_send_probe_to_offline_servers ::
  "nat \<Rightarrow> nat \<Rightarrow> normalized_question_minimal \<Rightarrow> addr list \<Rightarrow> upstream_servers \<Rightarrow> u16 \<Rightarrow> nat \<Rightarrow>
   addr option \<times> upstream_servers \<times> io_effect list" where
  "maybe_send_probe_to_offline_servers probes_delay now query_packet upstream_servers_for_query
     upstream_servers port sample =
     (if upstream_servers_for_query = [] then (None, upstream_servers, [])
      else
        (let offline_servers = List.map_filter upstream_servers upstream_servers_for_query in
         if offline_servers = [] then (None, upstream_servers, [])
         else
           (let random_offline_server = offline_servers ! (sample mod length offline_servers);
                probed = random_offline_server\<lparr>last_probe_ts := Some now\<rparr>
            in if (case last_probe_ts random_offline_server of
                     Some last_ts \<Rightarrow> now - last_ts < probes_delay
                   | None \<Rightarrow> False)
               then (None, upstream_servers, [])
               else (Some (socket_addr probed), upstream_servers,
                     [ProbeSend port (socket_addr probed) query_packet]))))"

lemma maybe_send_probe_registry:
  "fst (snd (maybe_send_probe_to_offline_servers d now q ups servers port r)) = servers"
  by (simp add: maybe_send_probe_to_offline_servers_def Let_def)

lemma maybe_send_probe_effects:
  "maybe_send_probe_to_offline_servers d now q ups servers port r = (res, servers', effs) \<Longrightarrow>
   (res = None \<and> effs = []) \<or> (\<exists>a. res = Some a \<and> effs = [ProbeSend port a q])"
  by (auto simp add: maybe_send_probe_to_offline_servers_def Let_def split: if_splits)

text \<open>
  C17: the rate limit never engages.  Once a probe has been sent, asking again at any
  later time, with the registry the first call returned and the same random draw,
  sends the same probe again: the time stamp of the first probe was lost.
\<close>

theorem probe_not_rate_limited:
  assumes "maybe_send_probe_to_offline_servers d now q ups servers port r = (Some a, servers', effs)"
    and "now \<le> now'"
  shows "maybe_send_probe_to_offline_servers d now' q ups servers' port r = (Some a, servers', effs)"
proof -
  have reg: "servers' = servers"
    using maybe_send_probe_registry [of d now q ups servers port r] assms(1) by simp
  show ?thesis
    using assms unfolding reg
    by (auto simp add: maybe_send_probe_to_offline_servers_def Let_def split: if_splits option.splits)
qed

lemma probe_not_rate_limited_witness:
  "maybe_send_probe_to_offline_servers 1000 0 \<lparr>nqm_key = 1, nqm_tid = 7\<rparr> [5]
     [5 \<mapsto> \<lparr>socket_addr = 5, pending_queries_count = 0, failures = 3, offline = True,
           last_probe_ts = None\<rparr>] 53 0 =
   (Some 5, [5 \<mapsto> \<lparr>socket_addr = 5, pending_queries_count = 0, failures = 3, offline = True,
           last_probe_ts = None\<rparr>], [ProbeSend 53 5 \<lparr>nqm_key = 1, nqm_tid = 7\<rparr>]) \<and>
   (0::nat) \<le> 10 \<and>
   maybe_send_probe_to_offline_servers 1000 10 \<lparr>nqm_key = 1, nqm_tid = 7\<rparr> [5]
     [5 \<mapsto> \<lparr>socket_addr = 5, pending_queries_count = 0, failures = 3, offline = True,
           last_probe_ts = None\<rparr>] 53 0 =
   (Some 5, [5 \<mapsto> \<lparr>socket_addr = 5, pending_queries_count = 0, failures = 3, offline = True,
           last_probe_ts = None\<rparr>], [ProbeSend 53 5 \<lparr>nqm_key = 1, nqm_tid = 7\<rparr>])"
proof -
  let ?s = "[5 \<mapsto> \<lparr>socket_addr = 5, pending_queries_count = 0, failures = 3, offline = True,
           last_probe_ts = None\<rparr>] :: upstream_servers"
  let ?q = "\<lparr>nqm_key = 1, nqm_tid = 7\<rparr>"
  have first: "maybe_send_probe_to_offline_servers 1000 0 ?q [5] ?s 53 0 =
    (Some 5, ?s, [ProbeSend 53 5 ?q])"
    by (simp add: maybe_send_probe_to_offline_servers_def map_filter_simps)
  have "(0::nat) \<le> 10" by simp
  with first show ?thesis
    using probe_not_rate_limited [OF first, of 10] by simp
qed

text \<open>
  C18: a server that is online is probed as well: with a single candidate that is live
  and never probed, the query is sent to it a second time as a probe.
\<close>

theorem probe_targets_online:
  assumes "servers a = Some us" and "socket_addr us = a" and "\<not> offline us"
    and "last_probe_ts us = None"
  shows "maybe_send_probe_to_offline_servers d now q [a] servers port r =
         (Some a, servers, [ProbeSend port a q])"
  using assms by (simp add: maybe_send_probe_to_offline_servers_def map_filter_simps)

lemma probe_targets_online_witness:
  "[5 \<mapsto> \<lparr>socket_addr = 5, pending_queries_count = 2, failures = 0, offline = False,
        last_probe_ts = None\<rparr>] (5::addr) =
     Some \<lparr>socket_addr = 5, pending_queries_count = 2, failures = 0, offline = False,
        last_probe_ts = None\<rparr> \<and>
   maybe_send_probe_to_offline_servers 1000 0 \<lparr>nqm_key = 1, nqm_tid = 7\<rparr> [5]
     [5 \<mapsto> \<lparr>socket_addr = 5, pending_queries_count = 2, failures = 0, offline = False,
        last_probe_ts = None\<rparr>] 53 4 =
   (Some 5, [5 \<mapsto> \<lparr>socket_addr = 5, pending_queries_count = 2, failures = 0, offline = False,
        last_probe_ts = None\<rparr>], [ProbeSend 53 5 \<lparr>nqm_key = 1, nqm_tid = 7\<rparr>])"
  using probe_targets_online [of "[5 \<mapsto> \<lparr>socket_addr = 5, pending_queries_count = 2, failures = 0,
      offline = False, last_probe_ts = None\<rparr>]" 5] by simp

end
