(* ===== verification/Handler.thy ===== *)
theory Handler
  imports Load_Balancer Pending_Table Probe
begin

text \<open>
  \<open>ClientQueriesHandler\<close> of \<open>client_queries_handler.rs\<close>: the orchestration of a
  client query (all-down shortcut, admission control, coalescing, choice of an upstream,
  probe, registration and send), the two timeout continuations (first attempt: count a
  failure and retry; retry: count a failure and degrade every attached client to a
  stale or SERVFAIL answer) and the external events around them.

  State.  \<open>handler_state\<close> extends the \<open>pending_table\<close> of theory
  \<open>Pending_Table\<close> with the upstream registry, the live indices, the timers that are
  armed, a supply of fresh oneshot-channel identifiers, the clock and three metric
  counters.  The configuration and the external collaborators the handler only reads
  (cache lookup, SERVFAIL builder, outbound sockets) are \<open>handler_config\<close>.  Every
  random choice of an event (upstream tid, outbound socket, probe target) is an input
  \<open>rng_draw\<close>.  A panic of the source (an out-of-range index, an empty random range,
  the failed \<open>assert!\<close>) is a value of \<open>handler_error\<close>.

  Timers.  \<open>timer.timeout(done_rx, d)\<close> resolves with success only when its
  \<open>done_tx\<close> sends; it fails, and runs its \<open>or_else\<close> continuation, on a timeout or
  when the sender is dropped.  A timer in \<open>timers\<close> may therefore fire at any moment
  (durations are abstracted), and a \<open>done_tx.send(())\<close> removes the timers of that
  channel.
\<close>

datatype attempt_timer =
    FirstAttempt nat addr normalized_question "addr list"
  | RetryAttempt nat pending_query_key addr

primrec timer_channel :: "attempt_timer \<Rightarrow> nat" where
  "timer_channel (FirstAttempt tx a nq ups) = tx"
| "timer_channel (RetryAttempt tx key a) = tx"

record handler_config =
  max_waiting_clients :: usize
  lbmode :: load_balancing_mode
  upstream_max_failures :: nat
  upstream_probes_delay_ms :: nat
  net_ext_udp_sockets :: "u16 list"
  cache_get :: "normalized_question \<Rightarrow> u64 \<times> u64 \<Rightarrow> packet option"
  build_servfail_packet :: "normalized_question \<Rightarrow> packet option"

record handler_state = pending_table +
  upstream_servers :: upstream_servers
  upstream_servers_live :: "nat list"
  timers :: "attempt_timer list"
  next_channel :: nat
  now :: nat
  client_queries_offline :: nat
  upstream_sent :: nat
  upstream_timeout :: nat

record rng_draw =
  draw_tid :: u16
  draw_socket :: nat
  draw_probe :: nat

datatype handler_error = PanicIndexOutOfBounds | PanicEmptyRange | PanicAssertion

text \<open>\<open>dns::build_query_packet\<close>: the minimal question carries a random upstream tid.\<close>

definition build_query_packet :: "normalized_question \<Rightarrow> u16 \<Rightarrow> normalized_question_minimal" where
  "build_query_packet nq tid = \<lparr>nqm_key = nq_key nq, nqm_tid = tid\<rparr>"

definition query_key :: "normalized_question \<Rightarrow> pending_query_key" where
  "query_key nq = \<lparr>normalized_question_key = nq_key nq, custom_hash = (0, 0)\<rparr>"

text \<open>The pending-query count \<open>pick_upstream\<close> reads for a live index.\<close>

definition server_load :: "upstream_servers \<Rightarrow> addr list \<Rightarrow> nat \<Rightarrow> u64" where
  "server_load servers upstream_servers_for_query i =
     (if i < length upstream_servers_for_query
      then (case servers (upstream_servers_for_query ! i) of
              Some us \<Rightarrow> pending_queries_count us
            | None \<Rightarrow> 0)
      else 0)"

definition new_pending_query ::
  "handler_config \<Rightarrow> normalized_question \<Rightarrow> upstream_servers \<Rightarrow> nat list \<Rightarrow> addr list \<Rightarrow>
   bool \<Rightarrow> rng_draw \<Rightarrow> handler_error + (pick_error + normalized_question_minimal \<times> nat \<times> u16)" where
  "new_pending_query cfg nq servers live upstream_servers_for_query is_retry dr =
     (let nqm = build_query_packet nq (draw_tid dr) in
      case pick_upstream nq (server_load servers upstream_servers_for_query) live is_retry
             (lbmode cfg) of
        Inl e \<Rightarrow> Inr (Inl e)
      | Inr idx \<Rightarrow>
          (let sockets = net_ext_udp_sockets cfg in
           if sockets = [] then Inl PanicEmptyRange
           else Inr (Inr (nqm, idx,
                          sockets ! (draw_socket dr mod length sockets)))))"

definition maybe_respond_with_stale_entry ::
  "handler_config \<Rightarrow> client_query \<Rightarrow> handler_state \<Rightarrow> handler_state \<times> io_effect list" where
  "maybe_respond_with_stale_entry cfg cq st =
     (case cache_get cfg (cq_normalized_question cq) (cq_custom_hash cq) of
       Some packet \<Rightarrow>
         (st\<lparr>client_queries_offline := client_queries_offline st + 1\<rparr>,
          [ClientResponse (cq_reply cq) packet])
     | None \<Rightarrow>
         (case build_servfail_packet cfg (cq_normalized_question cq) of
           Some packet \<Rightarrow> (st, [ClientResponse (cq_reply cq) packet])
         | None \<Rightarrow> (st, [])))"

fun respond_with_stale_entries ::
  "handler_config \<Rightarrow> client_query list \<Rightarrow> handler_state \<Rightarrow> handler_state \<times> io_effect list" where
  "respond_with_stale_entries cfg [] st = (st, [])"
| "respond_with_stale_entries cfg (cq # cqs) st =
     (let (st1, e1) = maybe_respond_with_stale_entry cfg cq st;
          (st2, e2) = respond_with_stale_entries cfg cqs st1
      in (st2, e1 @ e2))"

definition maybe_respond_to_all_clients_with_stale_entry ::
  "handler_config \<Rightarrow> pending_query \<Rightarrow> handler_state \<Rightarrow> handler_state \<times> io_effect list" where
  "maybe_respond_to_all_clients_with_stale_entry cfg pq st =
     respond_with_stale_entries cfg (client_queries pq) st"

text \<open>
  \<open>fut_process_client_query\<close>, lines 219 to 333, up to the arming of the first timer:
  the continuation of that timer is \<open>first_attempt_timeout\<close> below.
\<close>

definition fut_process_client_query ::
  "handler_config \<Rightarrow> rng_draw \<Rightarrow> client_query \<Rightarrow> handler_state \<Rightarrow>
   handler_error + handler_state \<times> io_effect list" where
  "fut_process_client_query cfg dr cq st =
     (if upstream_servers_live st = [] then Inr (maybe_respond_with_stale_entry cfg cq st)
      else
        (let nq = cq_normalized_question cq;
             key = query_key nq;
             ups = cq_upstream_servers_for_query cq
         in case cap_pending_queries (max_waiting_clients cfg) st of
           Inl _ \<Rightarrow> Inl PanicAssertion
         | Inr (_, st1) \<Rightarrow>
           (case maybe_add_to_existing_pending_query key cq st1 of
             (True, st2) \<Rightarrow> Inr (st2, [])
           | (False, st2) \<Rightarrow>
             (case new_pending_query cfg nq (upstream_servers st2) (upstream_servers_live st2)
                     ups False dr of
               Inl e \<Rightarrow> Inl e
             | Inr (Inl _) \<Rightarrow> Inr (st2, [])
             | Inr (Inr (nqm, idx, port)) \<Rightarrow>
               (let (probe, servers, probe_effects) =
                      maybe_send_probe_to_offline_servers (upstream_probes_delay_ms cfg) (now st2)
                        nqm ups (upstream_servers st2) port (draw_probe dr);
                    st3 = st2\<lparr>upstream_servers := servers\<rparr>
                in if length ups \<le> idx then Inl PanicIndexOutOfBounds
                   else (case upstream_servers st3 (ups ! idx) of
                     None \<Rightarrow> Inr (st3, probe_effects)
                   | Some us \<Rightarrow>
                     (let tx = next_channel st3;
                          pq = (pending_query_new nqm idx port cq tx (now st3))
                                 \<lparr>probed_socket_addr := probe\<rparr>
                      in Inr (st3\<lparr>waiting_clients_count := waiting_clients_count st3 + 1,
                                  inflight_queries := inflight_queries st3 + 1,
                                  upstream_servers := (upstream_servers st3)(ups ! idx \<mapsto> pending_inc us),
                                  pending_queries := AList.update key pq (pending_queries st3),
                                  upstream_sent := upstream_sent st3 + 1,
                                  timers := timers st3 @ [FirstAttempt tx (ups ! idx) nq ups],
                                  next_channel := Suc tx\<rparr>,
                              probe_effects @ [UpstreamSend port (socket_addr us) nqm]))))))))"

text \<open>
  \<open>fut_retry_query\<close>, lines 335 to 433: the retry of a pending query, up to the arming
  of the second timer, whose continuation is \<open>retry_attempt_timeout\<close>.  The
  \<open>saturating_sub(1)\<close> of line 365 discards its result and changes nothing.
\<close>

definition fut_retry_query ::
  "handler_config \<Rightarrow> rng_draw \<Rightarrow> normalized_question \<Rightarrow> addr list \<Rightarrow> handler_state \<Rightarrow>
   handler_error + handler_state \<times> io_effect list" where
  "fut_retry_query cfg dr nq ups st =
     (let key = query_key nq in
      case map_of (pending_queries st) key of
        None \<Rightarrow> Inr (st, [])
      | Some pq \<Rightarrow>
        (if length ups \<le> upstream_server_idx pq then Inl PanicIndexOutOfBounds
         else (case upstream_servers st (ups ! upstream_server_idx pq) of
           None \<Rightarrow> Inr (st, [])
         | Some _ \<Rightarrow>
           (case new_pending_query cfg nq (upstream_servers st) (upstream_servers_live st) ups True dr of
             Inl e \<Rightarrow> Inl e
           | Inr (Inl _) \<Rightarrow> Inr (st, [])
           | Inr (Inr (nqm, idx, port)) \<Rightarrow>
             (if length ups \<le> idx then Inl PanicIndexOutOfBounds
              else (case upstream_servers st (ups ! idx) of
                None \<Rightarrow> Inr (st, [])
              | Some us \<Rightarrow>
                (let tx = next_channel st;
                     pq' = pq\<lparr>normalized_question_minimal := nqm, local_port := port, ts := now st,
                             upstream_server_idx := idx, done_tx := tx\<rparr>
                 in Inr (st\<lparr>upstream_servers := (upstream_servers st)(ups ! idx \<mapsto> pending_inc us),
                            pending_queries := AList.update key pq' (pending_queries st),
                            timers := timers st @ [RetryAttempt tx key (ups ! idx)],
                            next_channel := Suc tx\<rparr>,
                         [UpstreamSend port (ups ! idx) nqm]))))))))"

text \<open>The \<open>or_else\<close> continuation of the first timer, lines 314 to 331.\<close>

definition first_attempt_timeout ::
  "handler_config \<Rightarrow> rng_draw \<Rightarrow> addr \<Rightarrow> normalized_question \<Rightarrow> addr list \<Rightarrow> handler_state \<Rightarrow>
   handler_error + handler_state \<times> io_effect list" where
  "first_attempt_timeout cfg dr a nq ups st =
     (let st1 = (case upstream_servers st a of
                   None \<Rightarrow> st
                 | Some us \<Rightarrow> st\<lparr>upstream_servers := (upstream_servers st)
                                 (a \<mapsto> record_failure (upstream_max_failures cfg) (pending_dec us))\<rparr>)
      in fut_retry_query cfg dr nq ups st1)"

text \<open>The \<open>or_else\<close> continuation of the second timer, lines 434 to 467.\<close>

definition retry_attempt_timeout ::
  "handler_config \<Rightarrow> pending_query_key \<Rightarrow> addr \<Rightarrow> handler_state \<Rightarrow> handler_state \<times> io_effect list" where
  "retry_attempt_timeout cfg key a st =
     (let st0 = st\<lparr>upstream_timeout := upstream_timeout st + 1\<rparr> in
      case upstream_servers st0 a of
        None \<Rightarrow> (st0, [])
      | Some us \<Rightarrow>
        (let st1 = st0\<lparr>upstream_servers := (upstream_servers st0)
                        (a \<mapsto> record_failure (upstream_max_failures cfg) (pending_dec us))\<rparr>
         in case map_of (pending_queries st1) key of
           None \<Rightarrow> (st1, [])
         | Some pq \<Rightarrow>
           (let st2 = st1\<lparr>pending_queries := AList.delete key (pending_queries st1),
                          inflight_queries := inflight_queries st1 - 1\<rparr>;
                (st3, effects) = maybe_respond_to_all_clients_with_stale_entry cfg pq st2
            in (st3\<lparr>timers := filter (\<lambda>t. timer_channel t \<noteq> done_tx pq) (timers st3),
                    waiting_clients_count :=
                      waiting_clients_count st3 - of_nat (length (client_queries pq))\<rparr>,
                effects))))"

text \<open>A timer fires: it leaves the armed timers and its continuation runs.\<close>

definition attempt_timer_fires ::
  "handler_config \<Rightarrow> rng_draw \<Rightarrow> attempt_timer \<Rightarrow> handler_state \<Rightarrow>
   handler_error + handler_state \<times> io_effect list" where
  "attempt_timer_fires cfg dr t st =
     (let st' = st\<lparr>timers := remove1 t (timers st)\<rparr> in
      case t of
        FirstAttempt tx a nq ups \<Rightarrow> first_attempt_timeout cfg dr a nq ups st'
      | RetryAttempt tx key a \<Rightarrow> Inr (retry_attempt_timeout cfg key a st'))"

text \<open>
  The response pipeline outside the core (specification, section 4.5): a response for a
  pending query is delivered to every attached client, the entry is removed, the
  counter is decremented and \<open>done_tx\<close> fires, which resolves its timer.
\<close>

definition pending_query_completed ::
  "pending_query_key \<Rightarrow> packet \<Rightarrow> handler_state \<Rightarrow> handler_state \<times> io_effect list" where
  "pending_query_completed key packet st =
     (case map_of (pending_queries st) key of
       None \<Rightarrow> (st, [])
     | Some pq \<Rightarrow>
       (st\<lparr>pending_queries := AList.delete key (pending_queries st),
           waiting_clients_count := waiting_clients_count st - of_nat (length (client_queries pq)),
           inflight_queries := inflight_queries st - 1,
           timers := filter (\<lambda>t. timer_channel t \<noteq> done_tx pq) (timers st)\<rparr>,
        map (\<lambda>cq. ClientResponse (cq_reply cq) packet) (client_queries pq)))"

definition handler_init :: "upstream_servers \<Rightarrow> nat list \<Rightarrow> handler_state" where
  "handler_init servers live =
     \<lparr>pending_queries = [], waiting_clients_count = 0, inflight_queries = 0,
      upstream_servers = servers, upstream_servers_live = live, timers = [], next_channel = 0,
      now = 0, client_queries_offline = 0, upstream_sent = 0, upstream_timeout = 0\<rparr>"

text \<open>
  One step of the handler with what it does on its sockets: a client query arrives, an
  armed timer fires, a response completes a pending query, the clock advances, or the
  external health logic changes the live set.
\<close>

inductive handler_step ::
  "handler_config \<Rightarrow> handler_state \<Rightarrow> io_effect list \<Rightarrow> handler_state \<Rightarrow> bool" for cfg where
  client_query:
    "fut_process_client_query cfg dr cq s = Inr (s', effects) \<Longrightarrow> handler_step cfg s effects s'"
| timer_fires:
    "t \<in> set (timers s) \<Longrightarrow> attempt_timer_fires cfg dr t s = Inr (s', effects) \<Longrightarrow>
     handler_step cfg s effects s'"
| response:
    "pending_query_completed key packet s = (s', effects) \<Longrightarrow> handler_step cfg s effects s'"
| clock:
    "handler_step cfg s [] (s\<lparr>now := Suc (now s)\<rparr>)"
| health:
    "handler_step cfg s [] (s\<lparr>upstream_servers_live := live\<rparr>)"

inductive reachable :: "handler_config \<Rightarrow> handler_state \<Rightarrow> bool" for cfg where
  init: "reachable cfg (handler_init servers live)"
| step: "reachable cfg s \<Longrightarrow> handler_step cfg s effects s' \<Longrightarrow> reachable cfg s'"

subsection \<open>Runs of events\<close>

text \<open>
  The events of \<open>handler_step\<close> as data, with a step function that performs one
  (\<open>None\<close> when the event is not enabled or the handler panics) and its iteration over
  a list of events, which collects what the handler does on its sockets.
\<close>

datatype handler_event =
    ClientQueryArrives rng_draw client_query
  | TimerFires rng_draw attempt_timer
  | ResponseArrives pending_query_key packet
  | ClockTick
  | LiveSetChanges "nat list"

fun handler_event_step ::
  "handler_config \<Rightarrow> handler_event \<Rightarrow> handler_state \<Rightarrow> (handler_state \<times> io_effect list) option" where
  "handler_event_step cfg (ClientQueryArrives dr cq) s =
     (case fut_process_client_query cfg dr cq s of Inl _ \<Rightarrow> None | Inr r \<Rightarrow> Some r)"
| "handler_event_step cfg (TimerFires dr t) s =
     (if t \<in> set (timers s)
      then (case attempt_timer_fires cfg dr t s of Inl _ \<Rightarrow> None | Inr r \<Rightarrow> Some r)
      else None)"
| "handler_event_step cfg (ResponseArrives key packet) s = Some (pending_query_completed key packet s)"
| "handler_event_step cfg ClockTick s = Some (s\<lparr>now := Suc (now s)\<rparr>, [])"
| "handler_event_step cfg (LiveSetChanges live) s = Some (s\<lparr>upstream_servers_live := live\<rparr>, [])"

fun run_events ::
  "handler_config \<Rightarrow> handler_event list \<Rightarrow> handler_state \<Rightarrow> (handler_state \<times> io_effect list) option" where
  "run_events cfg [] s = Some (s, [])"
| "run_events cfg (ev # evs) s =
     (case handler_event_step cfg ev s of
       None \<Rightarrow> None
     | Some (s', e) \<Rightarrow>
         (case run_events cfg evs s' of
           None \<Rightarrow> None
         | Some (s'', e') \<Rightarrow> Some (s'', e @ e')))"

definition upstream_sends :: "io_effect list \<Rightarrow> nat" where
  "upstream_sends effects =
     length (filter (\<lambda>e. case e of UpstreamSend _ _ _ \<Rightarrow> True | _ \<Rightarrow> False) effects)"

definition response_targets :: "io_effect list \<Rightarrow> nat list" where
  "response_targets effects =
     List.map_filter (\<lambda>e. case e of ClientResponse r _ \<Rightarrow> Some r | _ \<Rightarrow> None) effects"

subsection \<open>A small configuration for the examples\<close>

text \<open>
  Two upstream servers at addresses 10 and 11, both live, the Fallback mode, one
  outbound socket with local port 5353, no cache entry and a SERVFAIL builder that
  succeeds.  Queries for key 1 differ only in their reply handle.
\<close>

abbreviation example_server :: "addr \<Rightarrow> upstream_server" where
  "example_server a \<equiv> \<lparr>socket_addr = a, pending_queries_count = 0, failures = 0, offline = False,
     last_probe_ts = None\<rparr>"

abbreviation example_config :: "usize \<Rightarrow> handler_config" where
  "example_config m \<equiv> \<lparr>max_waiting_clients = m, lbmode = Fallback, upstream_max_failures = 3,
     upstream_probes_delay_ms = 1000, net_ext_udp_sockets = [5353],
     cache_get = (\<lambda>_ _. None), build_servfail_packet = (\<lambda>_. Some [2])\<rparr>"

abbreviation example_question :: "nat \<Rightarrow> normalized_question" where
  "example_question k \<equiv> \<lparr>nq_key = k, nq_qname_hash = 0, nq_tid = 0\<rparr>"

abbreviation example_query :: "nat \<Rightarrow> nat \<Rightarrow> client_query" where
  "example_query k r \<equiv> \<lparr>cq_normalized_question = example_question k,
     cq_upstream_servers_for_query = [10, 11], cq_reply = r, cq_custom_hash = (0, 0)\<rparr>"

abbreviation example_draw :: rng_draw where
  "example_draw \<equiv> \<lparr>draw_tid = 99, draw_socket = 0, draw_probe = 0\<rparr>"

abbreviation example_start :: handler_state where
  "example_start \<equiv> handler_init [10 \<mapsto> example_server 10, 11 \<mapsto> example_server 11] [0, 1]"

abbreviation example_key :: "nat \<Rightarrow> pending_query_key" where
  "example_key k \<equiv> \<lparr>normalized_question_key = k, custom_hash = (0, 0)\<rparr>"

abbreviation example_minimal :: "nat \<Rightarrow> normalized_question_minimal" where
  "example_minimal k \<equiv> \<lparr>nqm_key = k, nqm_tid = 99\<rparr>"

text \<open>The state after one query for key 1 with reply handle 7, from \<open>example_start\<close>.\<close>

abbreviation example_state1 :: handler_state where
  "example_state1 \<equiv> example_start\<lparr>waiting_clients_count := 1, inflight_queries := 1,
     upstream_servers := (upstream_servers example_start)(10 \<mapsto> pending_inc (example_server 10)),
     pending_queries := [(example_key 1,
        (pending_query_new (example_minimal 1) 0 5353 (example_query 1 7) 0 0)
          \<lparr>probed_socket_addr := Some 10\<rparr>)],
     upstream_sent := 1, timers := [FirstAttempt 0 10 (example_question 1) [10, 11]],
     next_channel := 1\<rparr>"

subsection \<open>The table invariant holds in every reachable state\<close>

text \<open>
  Every operation keeps \<open>table_inv\<close> of theory \<open>Pending_Table\<close>: the responses to
  clients touch only a metric counter, registration inserts a fresh key after admission
  control made room, a retry rewrites an entry in place with the same clients, and
  degradation and completion remove an entry together with its clients' count.
\<close>

lemma maybe_respond_with_stale_entry_frame:
  "\<exists>n. fst (maybe_respond_with_stale_entry cfg cq st) = st\<lparr>client_queries_offline := n\<rparr>"
proof (cases "cache_get cfg (cq_normalized_question cq) (cq_custom_hash cq)")
  case None
  then show ?thesis
    by (intro exI [of _ "client_queries_offline st"])
      (simp add: maybe_respond_with_stale_entry_def split: option.splits)
next
  case (Some p)
  then show ?thesis
    by (intro exI [of _ "client_queries_offline st + 1"])
      (simp add: maybe_respond_with_stale_entry_def)
qed

lemma respond_with_stale_entries_frame:
  "\<exists>n. fst (respond_with_stale_entries cfg cqs st) = st\<lparr>client_queries_offline := n\<rparr>"
proof (induction cqs arbitrary: st)
  case Nil
  show ?case by (rule exI [of _ "client_queries_offline st"]) simp
next
  case (Cons cq cqs)
  obtain n1 where n1: "fst (maybe_respond_with_stale_entry cfg cq st) = st\<lparr>client_queries_offline := n1\<rparr>"
    using maybe_respond_with_stale_entry_frame by blast
  obtain n2 where n2: "fst (respond_with_stale_entries cfg cqs (st\<lparr>client_queries_offline := n1\<rparr>)) =
      st\<lparr>client_queries_offline := n1, client_queries_offline := n2\<rparr>"
    using Cons.IH by blast
  have "fst (respond_with_stale_entries cfg (cq # cqs) st) =
        fst (respond_with_stale_entries cfg cqs (fst (maybe_respond_with_stale_entry cfg cq st)))"
    by (simp add: split_def Let_def)
  with n1 n2 show ?case by auto
qed

lemma upstream_servers_update_same [simp]:
  "st\<lparr>upstream_servers := upstream_servers st\<rparr> = st"
  by simp

text \<open>
  The outcomes of the two operations that send, as elimination rules with one case per
  branch of the source that returns normally: the all-down shortcut, attachment to a
  pending query, a query dropped after admission control (no upstream, or an unknown
  backend), and registration of a new pending query; for a retry, either nothing
  changes or the entry is rewritten in place for a new attempt.
\<close>

lemma fut_process_client_query_InrE:
  assumes run: "fut_process_client_query cfg dr cq st = Inr (st', effects)"
  obtains (all_down) n where "upstream_servers_live st = []"
      "st' = st\<lparr>client_queries_offline := n\<rparr>"
      "effects = snd (maybe_respond_with_stale_entry cfg cq st)"
  | (attached) b st1 where "upstream_servers_live st \<noteq> []"
      "cap_pending_queries (max_waiting_clients cfg) st = Inr (b, st1)"
      "maybe_add_to_existing_pending_query (query_key (cq_normalized_question cq)) cq st1 = (True, st')"
      "effects = []"
  | (dropped) b st1 where "upstream_servers_live st \<noteq> []"
      "cap_pending_queries (max_waiting_clients cfg) st = Inr (b, st1)"
      "map_of (pending_queries st1) (query_key (cq_normalized_question cq)) = None"
      "st' = st1" "effects = [] \<or> (\<exists>p a q. effects = [ProbeSend p a q])"
  | (registered) b st1 nqm idx port probe peff us where "upstream_servers_live st \<noteq> []"
      "cap_pending_queries (max_waiting_clients cfg) st = Inr (b, st1)"
      "map_of (pending_queries st1) (query_key (cq_normalized_question cq)) = None"
      "new_pending_query cfg (cq_normalized_question cq) (upstream_servers st1)
         (upstream_servers_live st1) (cq_upstream_servers_for_query cq) False dr = Inr (Inr (nqm, idx, port))"
      "maybe_send_probe_to_offline_servers (upstream_probes_delay_ms cfg) (now st1) nqm
         (cq_upstream_servers_for_query cq) (upstream_servers st1) port (draw_probe dr)
         = (probe, upstream_servers st1, peff)"
      "idx < length (cq_upstream_servers_for_query cq)"
      "upstream_servers st1 (cq_upstream_servers_for_query cq ! idx) = Some us"
      "st' = st1\<lparr>waiting_clients_count := waiting_clients_count st1 + 1,
               inflight_queries := inflight_queries st1 + 1,
               upstream_servers := (upstream_servers st1)
                 (cq_upstream_servers_for_query cq ! idx \<mapsto> pending_inc us),
               pending_queries := AList.update (query_key (cq_normalized_question cq))
                 ((pending_query_new nqm idx port cq (next_channel st1) (now st1))
                    \<lparr>probed_socket_addr := probe\<rparr>) (pending_queries st1),
               upstream_sent := upstream_sent st1 + 1,
               timers := timers st1 @ [FirstAttempt (next_channel st1)
                 (cq_upstream_servers_for_query cq ! idx) (cq_normalized_question cq)
                 (cq_upstream_servers_for_query cq)],
               next_channel := Suc (next_channel st1)\<rparr>"
      "effects = peff @ [UpstreamSend port (socket_addr us) nqm]"
proof (cases "upstream_servers_live st = []")
  case True
  obtain n where "fst (maybe_respond_with_stale_entry cfg cq st) = st\<lparr>client_queries_offline := n\<rparr>"
    using maybe_respond_with_stale_entry_frame by blast
  with run True have "st' = st\<lparr>client_queries_offline := n\<rparr>"
    and "effects = snd (maybe_respond_with_stale_entry cfg cq st)"
    by (simp_all add: fut_process_client_query_def)
  with True show ?thesis by (rule all_down)
next
  case live: False
  let ?nq = "cq_normalized_question cq"
  let ?key = "query_key ?nq"
  let ?ups = "cq_upstream_servers_for_query cq"
  obtain b st1 where cap: "cap_pending_queries (max_waiting_clients cfg) st = Inr (b, st1)"
    using run live by (auto simp: fut_process_client_query_def Let_def split: sum.splits)
  obtain a st2 where att: "maybe_add_to_existing_pending_query ?key cq st1 = (a, st2)"
    by fastforce
  show ?thesis
  proof (cases a)
    case True
    with run live cap att have "st' = st2" "effects = []"
      by (simp_all add: fut_process_client_query_def Let_def)
    with live cap att True show ?thesis by (intro attached) simp_all
  next
    case False
    with att have "st2 = st1 \<and> map_of (pending_queries st1) ?key = None"
      by (intro maybe_add_to_existing_pending_query_False) simp
    then have st2: "st2 = st1" and absent: "map_of (pending_queries st1) ?key = None"
      by simp_all
    note pre = run live cap att False st2
    show ?thesis
    proof (cases "new_pending_query cfg ?nq (upstream_servers st1) (upstream_servers_live st1) ?ups False dr")
      case (Inl e)
      with pre show ?thesis by (simp add: fut_process_client_query_def Let_def)
    next
      case (Inr r)
      show ?thesis
      proof (cases r)
        case (Inl pe)
        with Inr pre have "st' = st1" and "effects = []"
          by (simp_all add: fut_process_client_query_def Let_def)
        with live cap absent show ?thesis by (intro dropped) simp_all
      next
        case (Inr nip)
        obtain nqm idx port where nip: "nip = (nqm, idx, port)" by (cases nip) blast
        have np: "new_pending_query cfg ?nq (upstream_servers st1) (upstream_servers_live st1) ?ups False dr
                    = Inr (Inr (nqm, idx, port))"
          using \<open>new_pending_query _ _ _ _ _ _ _ = Inr r\<close> Inr nip by simp
        obtain probe servers peff where pr: "maybe_send_probe_to_offline_servers (upstream_probes_delay_ms cfg)
            (now st1) nqm ?ups (upstream_servers st1) port (draw_probe dr) = (probe, servers, peff)"
          by (metis prod_cases3)
        have servers: "servers = upstream_servers st1"
          using maybe_send_probe_registry [of "upstream_probes_delay_ms cfg" "now st1" nqm ?ups
              "upstream_servers st1" port "draw_probe dr"] pr by simp
        note pre2 = pre np pr servers
        show ?thesis
        proof (cases "length ?ups \<le> idx")
          case True
          with pre2 show ?thesis by (simp add: fut_process_client_query_def Let_def)
        next
          case idx: False
          show ?thesis
          proof (cases "upstream_servers st1 (?ups ! idx)")
            case None
            with pre2 idx have "st' = st1" and "effects = peff"
              by (simp_all add: fut_process_client_query_def Let_def)
            moreover have "peff = [] \<or> (\<exists>p a q. peff = [ProbeSend p a q])"
              using maybe_send_probe_effects [OF pr] by blast
            ultimately show ?thesis using live cap absent by (intro dropped) simp_all
          next
            case (Some us)
            from pre2 idx Some show ?thesis
              by (intro registered [OF live cap absent np, of probe peff us])
                (simp_all add: fut_process_client_query_def Let_def)
          qed
        qed
      qed
    qed
  qed
qed

lemma fut_retry_query_InrE:
  assumes run: "fut_retry_query cfg dr nq ups st = Inr (st', effects)"
  obtains (unchanged) "st' = st" "effects = []"
  | (retried) pq nqm idx port us where
      "map_of (pending_queries st) (query_key nq) = Some pq"
      "upstream_server_idx pq < length ups"
      "upstream_servers st (ups ! upstream_server_idx pq) \<noteq> None"
      "new_pending_query cfg nq (upstream_servers st) (upstream_servers_live st) ups True dr
         = Inr (Inr (nqm, idx, port))"
      "idx < length ups"
      "upstream_servers st (ups ! idx) = Some us"
      "st' = st\<lparr>upstream_servers := (upstream_servers st)(ups ! idx \<mapsto> pending_inc us),
               pending_queries := AList.update (query_key nq)
                 (pq\<lparr>normalized_question_minimal := nqm, local_port := port, ts := now st,
                     upstream_server_idx := idx, done_tx := next_channel st\<rparr>) (pending_queries st),
               timers := timers st @ [RetryAttempt (next_channel st) (query_key nq) (ups ! idx)],
               next_channel := Suc (next_channel st)\<rparr>"
      "effects = [UpstreamSend port (ups ! idx) nqm]"
proof (cases "map_of (pending_queries st) (query_key nq)")
  case None
  with run show ?thesis by (intro unchanged) (simp_all add: fut_retry_query_def)
next
  case (Some pq)
  note look = Some
  show ?thesis
  proof (cases "length ups \<le> upstream_server_idx pq")
    case True
    with run look show ?thesis by (simp add: fut_retry_query_def)
  next
    case idx0: False
    show ?thesis
    proof (cases "upstream_servers st (ups ! upstream_server_idx pq)")
      case None
      with run look idx0 show ?thesis by (intro unchanged) (simp_all add: fut_retry_query_def)
    next
      case (Some us0)
      note known = Some
      show ?thesis
      proof (cases "new_pending_query cfg nq (upstream_servers st) (upstream_servers_live st) ups True dr")
        case (Inl e)
        with run look idx0 known show ?thesis by (simp add: fut_retry_query_def)
      next
        case (Inr r)
        show ?thesis
        proof (cases r)
          case (Inl pe)
          with Inr run look idx0 known show ?thesis
            by (intro unchanged) (simp_all add: fut_retry_query_def)
        next
          case (Inr nip)
          obtain nqm idx port where nip: "nip = (nqm, idx, port)" by (cases nip) blast
          have np: "new_pending_query cfg nq (upstream_servers st) (upstream_servers_live st) ups True dr
                      = Inr (Inr (nqm, idx, port))"
            using \<open>new_pending_query _ _ _ _ _ _ _ = Inr r\<close> Inr nip by simp
          note pre = run look idx0 known np
          show ?thesis
          proof (cases "length ups \<le> idx")
            case True
            with pre show ?thesis by (simp add: fut_retry_query_def)
          next
            case idx: False
            show ?thesis
            proof (cases "upstream_servers st (ups ! idx)")
              case None
              with pre idx show ?thesis by (intro unchanged) (simp_all add: fut_retry_query_def)
            next
              case (Some us)
              from pre idx Some show ?thesis
                by (intro retried [OF look _ _ np, of us]) (simp_all add: fut_retry_query_def Let_def)
            qed
          qed
        qed
      qed
    qed
  qed
qed

lemma process_inv:
  assumes inv: "table_inv (max_waiting_clients cfg) st"
    and run: "fut_process_client_query cfg dr cq st = Inr (st', effects)"
  shows "table_inv (max_waiting_clients cfg) st'"
  using run
proof (cases rule: fut_process_client_query_InrE)
  case (all_down n)
  with inv show ?thesis by (simp add: table_inv_def)
next
  case (attached b st1)
  have "table_inv (max_waiting_clients cfg) st1"
    and "clients_in (pending_queries st1) < waiting_limit (max_waiting_clients cfg)"
    using cap_pending_queries_ok [OF inv] attached(2) by auto
  from maybe_add_to_existing_pending_query_inv [OF this attached(3)] show ?thesis ..
next
  case (dropped b st1)
  with cap_pending_queries_ok [OF inv] show ?thesis by auto
next
  case (registered b st1 nqm idx port probe peff us)
  let ?m = "max_waiting_clients cfg"
  let ?key = "query_key (cq_normalized_question cq)"
  let ?pq = "(pending_query_new nqm idx port cq (next_channel st1) (now st1))\<lparr>probed_socket_addr := probe\<rparr>"
  have inv1: "table_inv ?m st1" and room: "clients_in (pending_queries st1) < waiting_limit ?m"
    using cap_pending_queries_ok [OF inv] registered(2) by auto
  have "table_inv ?m (st1\<lparr>waiting_clients_count := waiting_clients_count st1 + 1,
                        pending_queries := AList.update ?key ?pq (pending_queries st1)\<rparr>)"
    using inv1 room registered(3) by (rule table_inv_insert) (simp add: pending_query_new_def)
  with registered(8) show ?thesis by (simp add: table_inv_def)
qed

lemma retry_inv:
  assumes inv: "table_inv m st"
    and run: "fut_retry_query cfg dr nq ups st = Inr (st', effects)"
  shows "table_inv m st'"
  using run
proof (cases rule: fut_retry_query_InrE)
  case unchanged
  with inv show ?thesis by simp
next
  case (retried pq nqm idx port us)
  have "table_inv m (st\<lparr>pending_queries := AList.update (query_key nq)
      (pq\<lparr>normalized_question_minimal := nqm, local_port := port, ts := now st,
          upstream_server_idx := idx, done_tx := next_channel st\<rparr>) (pending_queries st)\<rparr>)"
    using inv retried(1) by (rule table_inv_update_same) simp
  with retried(7) show ?thesis by (simp add: table_inv_def)
qed

lemma first_attempt_timeout_inv:
  assumes inv: "table_inv m st"
    and run: "first_attempt_timeout cfg dr a nq ups st = Inr (st', effects)"
  shows "table_inv m st'"
proof -
  let ?st1 = "case upstream_servers st a of
                None \<Rightarrow> st
              | Some us \<Rightarrow> st\<lparr>upstream_servers := (upstream_servers st)
                              (a \<mapsto> record_failure (upstream_max_failures cfg) (pending_dec us))\<rparr>"
  have "table_inv m ?st1"
    using inv by (simp add: table_inv_def split: option.splits)
  moreover have "fut_retry_query cfg dr nq ups ?st1 = Inr (st', effects)"
    using run by (simp add: first_attempt_timeout_def)
  ultimately show ?thesis
    by (rule retry_inv)
qed

lemma retry_attempt_timeout_inv:
  assumes inv: "table_inv m st"
  shows "table_inv m (fst (retry_attempt_timeout cfg key a st))"
proof (cases "upstream_servers st a")
  case None
  with inv show ?thesis
    by (simp add: retry_attempt_timeout_def table_inv_def)
next
  case (Some us)
  let ?st1 = "st\<lparr>upstream_timeout := upstream_timeout st + 1,
                 upstream_servers := (upstream_servers st)
                   (a \<mapsto> record_failure (upstream_max_failures cfg) (pending_dec us))\<rparr>"
  show ?thesis
  proof (cases "map_of (pending_queries st) key")
    case None
    with Some inv show ?thesis
      by (simp add: retry_attempt_timeout_def table_inv_def)
  next
    case (Some pq)
    let ?st2 = "?st1\<lparr>pending_queries := AList.delete key (pending_queries st),
                     inflight_queries := inflight_queries st - 1\<rparr>"
    obtain n where n: "fst (respond_with_stale_entries cfg (client_queries pq) ?st2) =
                         ?st2\<lparr>client_queries_offline := n\<rparr>"
      using respond_with_stale_entries_frame by blast
    have "table_inv m (st\<lparr>pending_queries := AList.delete key (pending_queries st),
                          waiting_clients_count :=
                            waiting_clients_count st - of_nat (length (client_queries pq))\<rparr>)"
      using inv Some by (rule table_inv_remove)
    with \<open>upstream_servers st a = Some us\<close> Some n show ?thesis
      by (simp add: retry_attempt_timeout_def maybe_respond_to_all_clients_with_stale_entry_def
          split_def Let_def table_inv_def)
  qed
qed

lemma attempt_timer_fires_inv:
  assumes inv: "table_inv (max_waiting_clients cfg) st"
    and run: "attempt_timer_fires cfg dr t st = Inr (st', effects)"
  shows "table_inv (max_waiting_clients cfg) st'"
proof -
  let ?st = "st\<lparr>timers := remove1 t (timers st)\<rparr>"
  have inv': "table_inv (max_waiting_clients cfg) ?st"
    using inv by (simp add: table_inv_def)
  show ?thesis
  proof (cases t)
    case (FirstAttempt tx a nq ups)
    with run have "first_attempt_timeout cfg dr a nq ups ?st = Inr (st', effects)"
      by (simp add: attempt_timer_fires_def)
    with inv' show ?thesis
      by (rule first_attempt_timeout_inv)
  next
    case (RetryAttempt tx key a)
    with run have "st' = fst (retry_attempt_timeout cfg key a ?st)"
      by (simp add: attempt_timer_fires_def)
    with inv' show ?thesis
      by (simp add: retry_attempt_timeout_inv)
  qed
qed

lemma pending_query_completed_inv:
  assumes inv: "table_inv m st"
  shows "table_inv m (fst (pending_query_completed key packet st))"
proof (cases "map_of (pending_queries st) key")
  case None
  with inv show ?thesis by (simp add: pending_query_completed_def)
next
  case (Some pq)
  have "table_inv m (st\<lparr>pending_queries := AList.delete key (pending_queries st),
                        waiting_clients_count :=
                          waiting_clients_count st - of_nat (length (client_queries pq))\<rparr>)"
    using inv Some by (rule table_inv_remove)
  with Some show ?thesis
    by (simp add: pending_query_completed_def table_inv_def)
qed

lemma handler_step_inv:
  "handler_step cfg s effects s' \<Longrightarrow> table_inv (max_waiting_clients cfg) s \<Longrightarrow>
   table_inv (max_waiting_clients cfg) s'"
proof (induction rule: handler_step.induct)
  case (client_query dr cq s s' effects)
  then show ?case by (blast intro: process_inv)
next
  case (timer_fires t s dr s' effects)
  then show ?case by (blast intro: attempt_timer_fires_inv)
next
  case (response key packet s s' effects)
  then show ?case by (metis pending_query_completed_inv fst_conv)
next
  case (clock s)
  then show ?case by (simp add: table_inv_def)
next
  case (health s live)
  then show ?case by (simp add: table_inv_def)
qed

lemma reachable_table_inv:
  "reachable cfg s \<Longrightarrow> table_inv (max_waiting_clients cfg) s"
proof (induction rule: reachable.induct)
  case (init servers live)
  show ?case
    by (simp add: handler_init_def table_inv_def waiting_limit_def)
next
  case (step s effects s')
  then show ?case by (blast intro: handler_step_inv)
qed

subsection \<open>Runs of events are runs of the step relation\<close>

lemmas handler_unfold = fut_process_client_query_def handler_init_def cap_pending_queries_def
  maybe_add_to_existing_pending_query_def new_pending_query_def pick_upstream_def
  maybe_send_probe_to_offline_servers_def query_key_def build_query_packet_def
  attempt_timer_fires_def first_attempt_timeout_def fut_retry_query_def retry_attempt_timeout_def
  maybe_respond_to_all_clients_with_stale_entry_def maybe_respond_with_stale_entry_def
  pending_query_completed_def server_load_def upstream_sends_def response_targets_def Let_def
  pending_inc_def pending_dec_def record_failure_def

lemma handler_event_step_sound:
  assumes that: "handler_event_step cfg ev s = Some (s', effects)"
  shows "handler_step cfg s effects s'"
proof (cases ev)
  case (ClientQueryArrives dr cq)
  then show ?thesis
    using that by (auto intro: handler_step.client_query split: sum.splits)
next
  case (TimerFires dr t)
  then show ?thesis
    using that by (auto intro: handler_step.timer_fires split: sum.splits if_splits)
next
  case (ResponseArrives key packet)
  then show ?thesis
    using that by (auto intro: handler_step.response)
next
  case ClockTick
  then show ?thesis
    using that by (auto intro: handler_step.clock)
next
  case (LiveSetChanges live)
  then show ?thesis
    using that by (auto intro: handler_step.health)
qed

lemma handler_event_step_complete:
  "handler_step cfg s effects s' \<Longrightarrow> \<exists>ev. handler_event_step cfg ev s = Some (s', effects)"
proof (induction rule: handler_step.induct)
  case (client_query dr cq s s' effects)
  then show ?case
    by (intro exI [of _ "ClientQueryArrives dr cq"]) simp
next
  case (timer_fires t s dr s' effects)
  then show ?case
    by (intro exI [of _ "TimerFires dr t"]) simp
next
  case (response key packet s s' effects)
  then show ?case
    by (intro exI [of _ "ResponseArrives key packet"]) simp
next
  case (clock s)
  show ?case
    by (intro exI [of _ ClockTick]) simp
next
  case (health s live)
  show ?case
    by (intro exI [of _ "LiveSetChanges live"]) simp
qed

lemma run_events_reachable:
  "reachable cfg s \<Longrightarrow> run_events cfg evs s = Some (s', effects) \<Longrightarrow> reachable cfg s'"
proof (induction evs arbitrary: s effects)
  case Nil
  then show ?case by simp
next
  case (Cons ev evs)
  obtain s1 e1 where st: "handler_event_step cfg ev s = Some (s1, e1)"
    using Cons.prems(2) by (auto split: option.splits)
  then obtain e2 where rest: "run_events cfg evs s1 = Some (s', e2)"
    using Cons.prems(2) by (auto split: option.splits)
  have "reachable cfg s1"
    using Cons.prems(1) handler_event_step_sound [OF st] by (rule reachable.step)
  then show ?case
    using rest by (rule Cons.IH)
qed

subsection \<open>Properties of the handler\<close>

lemma respond_with_stale_entries_targets:
  assumes "\<forall>nq. build_servfail_packet cfg nq \<noteq> None"
  shows "response_targets (snd (respond_with_stale_entries cfg cqs st)) = map cq_reply cqs"
proof (induction cqs arbitrary: st)
  case Nil
  then show ?case by (simp add: response_targets_def)
next
  case (Cons cq cqs)
  have "build_servfail_packet cfg (cq_normalized_question cq) \<noteq> None"
    using assms by blast
  then have "response_targets (snd (maybe_respond_with_stale_entry cfg cq st)) = [cq_reply cq]"
    by (auto simp: maybe_respond_with_stale_entry_def response_targets_def split: option.splits)
  with Cons show ?case
    by (simp add: split_def Let_def response_targets_def map_filter_append)
qed

text \<open>
  C1: in every reachable state the atomic counter \<open>waiting_clients_count\<close> equals the
  number of clients attached to the pending queries of the table.
\<close>

theorem reachable_waiting_clients_count:
  assumes "reachable cfg s"
  shows "unat (waiting_clients_count s) = clients_in (pending_queries s)"
  using reachable_table_inv [OF assms] by (simp add: table_inv_def)

theorem reachable_waiting_clients_count_witness:
  "case run_events (example_config 2) [ClientQueryArrives example_draw (example_query 1 7)] example_start of
     None \<Rightarrow> False
   | Some (s, _) \<Rightarrow> reachable (example_config 2) s \<and>
       unat (waiting_clients_count s) = clients_in (pending_queries s) \<and> clients_in (pending_queries s) = 1"
proof -
  have "\<exists>s e. run_events (example_config 2) [ClientQueryArrives example_draw (example_query 1 7)] example_start = Some (s, e)"
    by (simp add: handler_unfold)
  then obtain s e where run: "run_events (example_config 2) [ClientQueryArrives example_draw (example_query 1 7)] example_start = Some (s, e)"
    by blast
  have reach: "reachable (example_config 2) s"
    using reachable.init run by (rule run_events_reachable)
  have cnt: "clients_in (pending_queries s) = 1"
    using run by (auto simp add: handler_unfold clients_in_def)
  show ?thesis
    unfolding run using reach reachable_waiting_clients_count [OF reach] cnt by simp
qed

text \<open>
  C4: a query whose key is already pending, arriving when fewer clients than the limit
  wait, is attached to the pending query: no upstream send, no probe, one more waiting
  client, and nothing else changes.
\<close>

theorem ingest_coalesces:
  assumes "upstream_servers_live s \<noteq> []" and "waiting_clients_count s < max_waiting_clients cfg"
    and "map_of (pending_queries s) (query_key (cq_normalized_question cq)) = Some pq"
  shows "fut_process_client_query cfg dr cq s =
    Inr (s\<lparr>pending_queries := AList.update (query_key (cq_normalized_question cq))
                 (pq\<lparr>client_queries := client_queries pq @ [cq]\<rparr>) (pending_queries s),
           waiting_clients_count := waiting_clients_count s + 1\<rparr>, [])"
  using assms by (simp add: fut_process_client_query_def cap_pending_queries_def
      maybe_add_to_existing_pending_query_def Let_def)

theorem ingest_coalesces_witness:
  "upstream_servers_live example_state1 \<noteq> [] \<and>
   waiting_clients_count example_state1 < max_waiting_clients (example_config 2) \<and>
   map_of (pending_queries example_state1) (query_key (cq_normalized_question (example_query 1 8))) =
     Some ((pending_query_new (example_minimal 1) 0 5353 (example_query 1 7) 0 0)
          \<lparr>probed_socket_addr := Some 10\<rparr>) \<and>
   fut_process_client_query (example_config 2) example_draw (example_query 1 8) example_state1 =
     Inr (example_state1\<lparr>pending_queries := [(example_key 1,
            (pending_query_new (example_minimal 1) 0 5353 (example_query 1 7) 0 0)
              \<lparr>probed_socket_addr := Some 10, client_queries := [example_query 1 7, example_query 1 8]\<rparr>)],
          waiting_clients_count := 2\<rparr>, [])"
proof -
  have h: "upstream_servers_live example_state1 \<noteq> []"
    "waiting_clients_count example_state1 < max_waiting_clients (example_config 2)"
    "map_of (pending_queries example_state1) (query_key (cq_normalized_question (example_query 1 8))) =
     Some ((pending_query_new (example_minimal 1) 0 5353 (example_query 1 7) 0 0)
          \<lparr>probed_socket_addr := Some 10\<rparr>)"
    by (simp_all add: handler_init_def query_key_def)
  show ?thesis
    using h ingest_coalesces [OF h, of example_draw]
    by (simp add: handler_init_def query_key_def pending_query_new_def)
qed

text \<open>
  C5: when no upstream server is live and the cache has no entry, the client gets the
  SERVFAIL packet at once and the handler state is unchanged: no pending query is
  created.
\<close>

theorem ingest_all_down_servfail:
  assumes "upstream_servers_live s = []"
    and "cache_get cfg (cq_normalized_question cq) (cq_custom_hash cq) = None"
    and "build_servfail_packet cfg (cq_normalized_question cq) = Some p"
  shows "fut_process_client_query cfg dr cq s = Inr (s, [ClientResponse (cq_reply cq) p])"
  using assms by (simp add: fut_process_client_query_def maybe_respond_with_stale_entry_def)

theorem ingest_all_down_servfail_witness:
  "upstream_servers_live (example_start\<lparr>upstream_servers_live := []\<rparr>) = [] \<and>
   cache_get (example_config 2) (example_question 1) (0, 0) = None \<and>
   build_servfail_packet (example_config 2) (example_question 1) = Some [2] \<and>
   fut_process_client_query (example_config 2) example_draw (example_query 1 7)
     (example_start\<lparr>upstream_servers_live := []\<rparr>) =
   Inr (example_start\<lparr>upstream_servers_live := []\<rparr>, [ClientResponse 7 [2]])"
  using ingest_all_down_servfail [of "example_start\<lparr>upstream_servers_live := []\<rparr>"
      "example_config 2" "example_query 1 7" "[2]" example_draw]
  by simp


lemma example_two_keys_run:
  "\<exists>s e. run_events (example_config 1)
      [ClientQueryArrives example_draw (example_query 1 7), ClientQueryArrives example_draw (example_query 2 8)]
      example_start = Some (s, e)"
  by (simp add: handler_unfold)

text \<open>
  C2: in every reachable state at most \<open>max 1 max_waiting_clients\<close> clients wait: the
  admission control of \<open>cap_pending_queries\<close> bounds the counter, which therefore
  never wraps around.  (With \<open>max_waiting_clients = 0\<close> one client still waits.)
\<close>

theorem reachable_waiting_bound:
  assumes "reachable cfg s"
  shows "unat (waiting_clients_count s) \<le> max 1 (unat (max_waiting_clients cfg))"
  using reachable_table_inv [OF assms] by (simp add: table_inv_def waiting_limit_def)

theorem reachable_waiting_bound_witness:
  "case run_events (example_config 1)
      [ClientQueryArrives example_draw (example_query 1 7), ClientQueryArrives example_draw (example_query 2 8)]
      example_start of
     None \<Rightarrow> False
   | Some (s, _) \<Rightarrow> reachable (example_config 1) s \<and>
       unat (waiting_clients_count s) \<le> max 1 (unat (max_waiting_clients (example_config 1))) \<and>
       map fst (pending_queries s) = [example_key 2]"
proof -
  obtain s e where run: "run_events (example_config 1)
      [ClientQueryArrives example_draw (example_query 1 7), ClientQueryArrives example_draw (example_query 2 8)]
      example_start = Some (s, e)"
    using example_two_keys_run by blast
  have reach: "reachable (example_config 1) s"
    using reachable.init run by (rule run_events_reachable)
  have keys: "map fst (pending_queries s) = [example_key 2]"
    using run by (auto simp add: handler_unfold)
  show ?thesis
    unfolding run using reach reachable_waiting_bound [OF reach] keys by simp
qed

text \<open>
  C3: in every reachable state, processing a client query never fails the
  \<open>assert!(prev_count >= clients_count)\<close> of \<open>cap_pending_queries\<close>.
\<close>

theorem reachable_no_assertion_failure:
  assumes "reachable cfg s"
  shows "fut_process_client_query cfg dr cq s \<noteq> Inl PanicAssertion"
proof -
  obtain b s1 where cap: "cap_pending_queries (max_waiting_clients cfg) s = Inr (b, s1)"
    using cap_pending_queries_ok [OF reachable_table_inv [OF assms]] by blast
  show ?thesis
    using cap by (auto simp add: fut_process_client_query_def new_pending_query_def Let_def
        split: prod.splits bool.splits sum.splits option.splits if_splits)
qed

theorem reachable_no_assertion_failure_witness:
  "case run_events (example_config 1) [ClientQueryArrives example_draw (example_query 1 7)] example_start of
     None \<Rightarrow> False
   | Some (s, _) \<Rightarrow> reachable (example_config 1) s \<and>
       fut_process_client_query (example_config 1) example_draw (example_query 2 8) s \<noteq> Inl PanicAssertion"
proof -
  have "\<exists>s e. run_events (example_config 1) [ClientQueryArrives example_draw (example_query 1 7)]
      example_start = Some (s, e)"
    by (simp add: handler_unfold)
  then obtain s e where run: "run_events (example_config 1) [ClientQueryArrives example_draw (example_query 1 7)]
      example_start = Some (s, e)"
    by blast
  have reach: "reachable (example_config 1) s"
    using reachable.init run by (rule run_events_reachable)
  show ?thesis
    unfolding run using reach reachable_no_assertion_failure [OF reach] by simp
qed


text \<open>
  C6: when the retry of a pending query times out, the entry leaves the table, the
  counter drops by the number of its clients, and (when the SERVFAIL builder succeeds)
  every attached client receives exactly one response, in the order they attached.
\<close>

theorem retry_timeout_degrades:
  assumes "reachable cfg s" and "upstream_servers s a = Some us"
    and "map_of (pending_queries s) key = Some pq"
    and "\<forall>nq. build_servfail_packet cfg nq \<noteq> None"
  shows "map_of (pending_queries (fst (retry_attempt_timeout cfg key a s))) key = None \<and>
         unat (waiting_clients_count (fst (retry_attempt_timeout cfg key a s))) =
           unat (waiting_clients_count s) - length (client_queries pq) \<and>
         response_targets (snd (retry_attempt_timeout cfg key a s)) = map cq_reply (client_queries pq)"
proof -
  have inv: "table_inv (max_waiting_clients cfg) s"
    using assms(1) by (rule reachable_table_inv)
  have c_le: "length (client_queries pq) \<le> unat (waiting_clients_count s)"
    using inv clients_in_entry_le [OF assms(3)] by (simp add: table_inv_def)
  let ?st2 = "s\<lparr>upstream_timeout := upstream_timeout s + 1,
                 upstream_servers := (upstream_servers s)
                   (a \<mapsto> record_failure (upstream_max_failures cfg) (pending_dec us)),
                 pending_queries := AList.delete key (pending_queries s),
                 inflight_queries := inflight_queries s - 1\<rparr>"
  obtain n where n: "fst (respond_with_stale_entries cfg (client_queries pq) ?st2) =
                       ?st2\<lparr>client_queries_offline := n\<rparr>"
    using respond_with_stale_entries_frame by blast
  have res: "retry_attempt_timeout cfg key a s =
    (?st2\<lparr>client_queries_offline := n,
           timers := filter (\<lambda>t. timer_channel t \<noteq> done_tx pq) (timers s),
           waiting_clients_count := waiting_clients_count s - of_nat (length (client_queries pq))\<rparr>,
     snd (respond_with_stale_entries cfg (client_queries pq) ?st2))"
    using assms(2,3) n
    by (simp add: retry_attempt_timeout_def maybe_respond_to_all_clients_with_stale_entry_def
        split_def Let_def)
  show ?thesis
    using c_le respond_with_stale_entries_targets [OF assms(4)]
    by (simp add: res delete_conv' unat_count_sub)
qed

theorem retry_timeout_degrades_witness:
  "case run_events (example_config 2) [ClientQueryArrives example_draw (example_query 1 7)] example_start of
     None \<Rightarrow> False
   | Some (s, _) \<Rightarrow> reachable (example_config 2) s \<and> upstream_servers s 10 \<noteq> None \<and>
       map_of (pending_queries s) (example_key 1) \<noteq> None \<and>
       map_of (pending_queries (fst (retry_attempt_timeout (example_config 2) (example_key 1) 10 s)))
         (example_key 1) = None \<and>
       unat (waiting_clients_count (fst (retry_attempt_timeout (example_config 2) (example_key 1) 10 s))) = 0 \<and>
       response_targets (snd (retry_attempt_timeout (example_config 2) (example_key 1) 10 s)) = [7]"
proof -
  have "\<exists>s e. run_events (example_config 2) [ClientQueryArrives example_draw (example_query 1 7)]
      example_start = Some (s, e)"
    by (simp add: handler_unfold)
  then obtain s e where run: "run_events (example_config 2) [ClientQueryArrives example_draw (example_query 1 7)]
      example_start = Some (s, e)"
    by blast
  have reach: "reachable (example_config 2) s"
    using reachable.init run by (rule run_events_reachable)
  have "\<exists>us. upstream_servers s 10 = Some us"
    using run by (auto simp add: handler_unfold)
  then obtain us where us: "upstream_servers s 10 = Some us" by blast
  have "\<exists>pq. map_of (pending_queries s) (example_key 1) = Some pq \<and>
          client_queries pq = [example_query 1 7] \<and> unat (waiting_clients_count s) = 1"
    using run by (auto simp add: handler_unfold pending_query_new_def)
  then obtain pq where pq: "map_of (pending_queries s) (example_key 1) = Some pq"
    and cl: "client_queries pq = [example_query 1 7]" and w: "unat (waiting_clients_count s) = 1"
    by blast
  have sf: "\<forall>nq. build_servfail_packet (example_config 2) nq \<noteq> None"
    by simp
  show ?thesis
    unfolding run using reach us pq cl w retry_timeout_degrades [OF reach us pq sf] by simp
qed

text \<open>
  C8: when the first timer of a pending query fires while no upstream server is live,
  the retry gives up without degrading: the entry stays in the table with its clients
  and the counter unchanged, and the fired timer is gone, so no continuation of this
  attempt will answer them.
\<close>

theorem first_timeout_all_down_strands_entry:
  assumes "upstream_servers_live s = []"
    and "map_of (pending_queries s) (query_key nq) = Some pq"
    and "upstream_server_idx pq < length ups"
    and "upstream_servers s (ups ! upstream_server_idx pq) \<noteq> None"
  shows "\<exists>s'. attempt_timer_fires cfg dr (FirstAttempt tx a nq ups) s = Inr (s', []) \<and>
           pending_queries s' = pending_queries s \<and>
           waiting_clients_count s' = waiting_clients_count s \<and>
           timers s' = remove1 (FirstAttempt tx a nq ups) (timers s)"
proof -
  let ?t = "FirstAttempt tx a nq ups"
  let ?s0 = "s\<lparr>timers := remove1 ?t (timers s)\<rparr>"
  define s1 where "s1 = (case upstream_servers ?s0 a of
                 None \<Rightarrow> ?s0
               | Some us \<Rightarrow> ?s0\<lparr>upstream_servers := (upstream_servers ?s0)
                               (a \<mapsto> record_failure (upstream_max_failures cfg) (pending_dec us))\<rparr>)"
  have f: "pending_queries s1 = pending_queries s" "waiting_clients_count s1 = waiting_clients_count s"
    "timers s1 = remove1 ?t (timers s)" "upstream_servers_live s1 = []"
    using assms(1) by (simp_all add: s1_def split: option.splits)
  have known: "upstream_servers s1 (ups ! upstream_server_idx pq) \<noteq> None"
    using assms(4) by (auto simp add: s1_def split: option.splits)
  have "new_pending_query cfg nq (upstream_servers s1) (upstream_servers_live s1) ups True dr =
        Inr (Inl AllUpstreamsDown)"
    using f(4) by (simp add: new_pending_query_def pick_upstream_def)
  then have "fut_retry_query cfg dr nq ups s1 = Inr (s1, [])"
    using f(1) assms(2,3) known by (auto simp add: fut_retry_query_def)
  moreover have "attempt_timer_fires cfg dr ?t s = fut_retry_query cfg dr nq ups s1"
    by (simp add: attempt_timer_fires_def first_attempt_timeout_def s1_def Let_def)
  ultimately show ?thesis
    using f by auto
qed

theorem first_timeout_all_down_strands_entry_witness:
  "upstream_servers_live (example_state1\<lparr>upstream_servers_live := []\<rparr>) = [] \<and>
   map_of (pending_queries (example_state1\<lparr>upstream_servers_live := []\<rparr>))
     (query_key (example_question 1)) =
     Some ((pending_query_new (example_minimal 1) 0 5353 (example_query 1 7) 0 0)
          \<lparr>probed_socket_addr := Some 10\<rparr>) \<and>
   upstream_server_idx ((pending_query_new (example_minimal 1) 0 5353 (example_query 1 7) 0 0)
          \<lparr>probed_socket_addr := Some 10\<rparr>) < length [10, 11 :: addr] \<and>
   upstream_servers (example_state1\<lparr>upstream_servers_live := []\<rparr>) ([10, 11] ! 0) \<noteq> None \<and>
   (\<exists>s'. attempt_timer_fires (example_config 2) example_draw
            (FirstAttempt 0 10 (example_question 1) [10, 11])
            (example_state1\<lparr>upstream_servers_live := []\<rparr>) = Inr (s', []) \<and>
          pending_queries s' = pending_queries example_state1 \<and>
          waiting_clients_count s' = 1 \<and> timers s' = [])"
proof -
  let ?s = "example_state1\<lparr>upstream_servers_live := []\<rparr>"
  let ?pq = "(pending_query_new (example_minimal 1) 0 5353 (example_query 1 7) 0 0)
          \<lparr>probed_socket_addr := Some 10\<rparr>"
  have h: "upstream_servers_live ?s = []"
    "map_of (pending_queries ?s) (query_key (example_question 1)) = Some ?pq"
    "upstream_server_idx ?pq < length [10, 11 :: addr]"
    "upstream_servers ?s ([10, 11] ! upstream_server_idx ?pq) \<noteq> None"
    by (simp_all add: handler_init_def query_key_def pending_query_new_def)
  show ?thesis
    using h first_timeout_all_down_strands_entry [OF h, of "example_config 2" example_draw 0 10]
    by (simp add: handler_init_def pending_query_new_def)
qed

text \<open>
  C7: a pending query can be sent upstream three times.  With \<open>max_waiting_clients = 1\<close>,
  a second query for the same key evicts the first entry and creates a new one (one
  send); the evicted entry's dropped \<open>done_tx\<close> makes its first timer fire, which
  retries the new entry (second send) and drops the new entry's first sender, whose
  timer then retries it again (third send).  The entry, holding the second client, is
  never removed in between.
\<close>

theorem pending_query_sent_three_times:
  "case run_events (example_config 1)
      [ClientQueryArrives example_draw (example_query 1 7), ClientQueryArrives example_draw (example_query 1 8)]
      example_start of
     None \<Rightarrow> False
   | Some (s, e) \<Rightarrow>
       reachable (example_config 1) s \<and>
       (\<exists>pq. map_of (pending_queries s) (example_key 1) = Some pq \<and> client_queries pq = [example_query 1 8]) \<and>
       last e = UpstreamSend 5353 10 (example_minimal 1) \<and>
       (case run_events (example_config 1)
            [TimerFires example_draw (FirstAttempt 0 10 (example_question 1) [10, 11]),
             TimerFires example_draw (FirstAttempt 1 10 (example_question 1) [10, 11])] s of
          None \<Rightarrow> False
        | Some (s', e') \<Rightarrow> upstream_sends e' = 2 \<and>
            (\<exists>pq. map_of (pending_queries s') (example_key 1) = Some pq \<and>
                  client_queries pq = [example_query 1 8]))"
proof -
  have "\<exists>s e. run_events (example_config 1)
      [ClientQueryArrives example_draw (example_query 1 7), ClientQueryArrives example_draw (example_query 1 8)]
      example_start = Some (s, e)"
    by (simp add: handler_unfold)
  then obtain s e where run: "run_events (example_config 1)
      [ClientQueryArrives example_draw (example_query 1 7), ClientQueryArrives example_draw (example_query 1 8)]
      example_start = Some (s, e)"
    by blast
  have reach: "reachable (example_config 1) s"
    using reachable.init run by (rule run_events_reachable)
  have first: "(\<exists>pq. map_of (pending_queries s) (example_key 1) = Some pq \<and> client_queries pq = [example_query 1 8]) \<and>
       last e = UpstreamSend 5353 10 (example_minimal 1)"
    using run by (auto simp add: handler_unfold pending_query_new_def)
  have second: "case run_events (example_config 1)
            [TimerFires example_draw (FirstAttempt 0 10 (example_question 1) [10, 11]),
             TimerFires example_draw (FirstAttempt 1 10 (example_question 1) [10, 11])] s of
          None \<Rightarrow> False
        | Some (s', e') \<Rightarrow> upstream_sends e' = 2 \<and>
            (\<exists>pq. map_of (pending_queries s') (example_key 1) = Some pq \<and>
                  client_queries pq = [example_query 1 8])"
    using run by (auto simp add: handler_unfold pending_query_new_def)
  show ?thesis
    unfolding run using reach first second by simp
qed

end
