(* ===== verification/Timers.thy ===== *)
theory Timers
  imports Handler
begin

text \<open>
  The armed timers of the handler and what they imply for termination, for the channel
  identifiers and for the registry's pending counts.  Each armed timer belongs to one
  attempt of a pending query on one upstream server (the \<open>upstream_server_for_query\<close>
  its continuation captures, lines 309 and 415): firing it runs the continuation,
  \<open>done_tx.send(())\<close> cancels it.
\<close>

primrec timer_target :: "attempt_timer \<Rightarrow> addr" where
  "timer_target (FirstAttempt tx a nq ups) = a"
| "timer_target (RetryAttempt tx key a) = a"

primrec is_first_attempt :: "attempt_timer \<Rightarrow> bool" where
  "is_first_attempt (FirstAttempt tx a nq ups) = True"
| "is_first_attempt (RetryAttempt tx key a) = False"

text \<open>
  A first-attempt timer may still cause a retry and its timer; a retry timer causes no
  further timer.  The weight counts the firings an armed timer can still cause.
\<close>

definition timer_weight :: "attempt_timer \<Rightarrow> nat" where
  "timer_weight t = (if is_first_attempt t then 2 else 1)"

definition timers_weight :: "attempt_timer list \<Rightarrow> nat" where
  "timers_weight tms = sum_list (map timer_weight tms)"

definition first_attempts :: "attempt_timer list \<Rightarrow> nat" where
  "first_attempts tms = sum_list (map (of_bool \<circ> is_first_attempt) tms)"

text \<open>The number of armed attempts on server \<open>a\<close>.\<close>

definition armed_on :: "addr \<Rightarrow> attempt_timer list \<Rightarrow> nat" where
  "armed_on a tms = sum_list (map (\<lambda>t. of_bool (timer_target t = a)) tms)"

text \<open>The channel identifiers of the pending queries' \<open>done_tx\<close>.\<close>

definition pending_channels :: "pending_queries \<Rightarrow> nat set" where
  "pending_channels pqs = (done_tx \<circ> snd) ` set pqs"

text \<open>
  The registry after a timeout charges server \<open>a\<close>: its count is decremented and a
  failure recorded, when the server is known (lines 316 to 328 and 437 to 455).
\<close>

definition charge_timeout :: "nat \<Rightarrow> addr \<Rightarrow> upstream_servers \<Rightarrow> upstream_servers" where
  "charge_timeout m a servers =
     (case servers a of
       None \<Rightarrow> servers
     | Some us \<Rightarrow> servers(a \<mapsto> record_failure m (pending_dec us)))"

text \<open>
  Channel identifiers are fresh: the armed timers have distinct channels, and every
  channel of a timer or of a pending query's \<open>done_tx\<close> is below the next identifier.
\<close>

definition channels_ok :: "attempt_timer list \<Rightarrow> nat \<Rightarrow> nat set \<Rightarrow> bool" where
  "channels_ok tms n pcs \<longleftrightarrow>
     distinct (map timer_channel tms) \<and> (\<forall>t\<in>set tms. timer_channel t < n) \<and> (\<forall>c\<in>pcs. c < n)"

text \<open>Every armed attempt on a known server is counted in its \<open>pending_queries_count\<close>.\<close>

definition counts_ok :: "upstream_servers \<Rightarrow> attempt_timer list \<Rightarrow> bool" where
  "counts_ok servers tms \<longleftrightarrow>
     (\<forall>a us. servers a = Some us \<longrightarrow> armed_on a tms \<le> unat (pending_queries_count us))"

lemma cap_pending_queries_more:
  "cap_pending_queries m t = Inr (b, t') \<Longrightarrow> pending_table.more t' = pending_table.more t"
  by (auto simp: cap_pending_queries_def Let_def split: if_splits list.splits option.splits)

lemma handler_more_fields:
  "pending_table.more (st1::handler_state) = pending_table.more st \<Longrightarrow>
   timers st1 = timers st \<and> upstream_servers st1 = upstream_servers st \<and>
   next_channel st1 = next_channel st"
  by (cases st1, cases st) simp

lemma maybe_add_to_existing_pending_query_more:
  "maybe_add_to_existing_pending_query key cq t = (b, t') \<Longrightarrow> pending_table.more t' = pending_table.more t"
  by (auto simp: maybe_add_to_existing_pending_query_def split: option.splits)

text \<open>The kinds of event of a run.\<close>

primrec is_client_event :: "handler_event \<Rightarrow> bool" where
  "is_client_event (ClientQueryArrives dr cq) = True"
| "is_client_event (TimerFires dr t) = False"
| "is_client_event (ResponseArrives key packet) = False"
| "is_client_event ClockTick = False"
| "is_client_event (LiveSetChanges live) = False"

primrec is_timer_event :: "handler_event \<Rightarrow> bool" where
  "is_timer_event (ClientQueryArrives dr cq) = False"
| "is_timer_event (TimerFires dr t) = True"
| "is_timer_event (ResponseArrives key packet) = False"
| "is_timer_event ClockTick = False"
| "is_timer_event (LiveSetChanges live) = False"

lemma pending_channels_Cons [simp]:
  "pending_channels (p # al) = insert (done_tx (snd p)) (pending_channels al)"
  by (simp add: pending_channels_def)

lemma pending_channels_update:
  "pending_channels (AList.update k v al) \<subseteq> insert (done_tx v) (pending_channels al)"
proof -
  have "done_tx ` snd ` set (AList.update k v al) \<subseteq> done_tx ` insert v (snd ` set al)"
    by (rule image_mono) (rule set_update_values)
  then show ?thesis
    by (simp add: pending_channels_def image_comp)
qed

lemma pending_channels_delete:
  "pending_channels (AList.delete k al) \<subseteq> pending_channels al"
  using set_delete_values [of k al] by (auto simp: pending_channels_def)

lemma cap_pending_queries_channels:
  "cap_pending_queries m t = Inr (b, t') \<Longrightarrow>
   pending_channels (pending_queries t') \<subseteq> pending_channels (pending_queries t)"
  using pending_channels_delete
  by (fastforce simp: cap_pending_queries_def Let_def split: if_splits list.splits option.splits)

lemma maybe_add_to_existing_pending_query_channels:
  assumes "maybe_add_to_existing_pending_query key cq t = (b, t')"
  shows "pending_channels (pending_queries t') \<subseteq> pending_channels (pending_queries t)"
proof (cases "map_of (pending_queries t) key")
  case None
  with assms show ?thesis by (simp add: maybe_add_to_existing_pending_query_def)
next
  case (Some pq)
  then have "done_tx pq \<in> pending_channels (pending_queries t)"
    by (force simp: pending_channels_def dest: map_of_SomeD)
  with Some assms pending_channels_update [of key "pq\<lparr>client_queries := client_queries pq @ [cq]\<rparr>"
      "pending_queries t"] show ?thesis
    by (auto simp: maybe_add_to_existing_pending_query_def)
qed

lemma upstream_sends_append [simp]:
  "upstream_sends (e1 @ e2) = upstream_sends e1 + upstream_sends e2"
  by (simp add: upstream_sends_def)

lemma upstream_sends_Nil [simp]: "upstream_sends [] = 0"
  by (simp add: upstream_sends_def)

lemma upstream_sends_single [simp]:
  "upstream_sends [ProbeSend p a q] = 0" "upstream_sends [ClientResponse r pk] = 0"
  "upstream_sends [UpstreamSend p a q] = 1"
  by (simp_all add: upstream_sends_def)

lemma stale_entry_sends:
  "upstream_sends (snd (maybe_respond_with_stale_entry cfg cq st)) = 0"
  by (simp add: maybe_respond_with_stale_entry_def split: option.splits)

lemma stale_entries_sends:
  "upstream_sends (snd (respond_with_stale_entries cfg cqs st)) = 0"
  by (induction cqs arbitrary: st) (simp_all add: split_def Let_def stale_entry_sends)

text \<open>
  What each operation does to the timers, the registry, the channel supply, the
  channels of the pending queries and the upstream sends.  A client query either leaves
  all of them alone or arms one first-attempt timer on a known server whose count it
  increments, with one upstream send.
\<close>

lemma process_timers:
  assumes run: "fut_process_client_query cfg dr cq st = Inr (st', effects)"
  shows "(timers st' = timers st \<and> upstream_servers st' = upstream_servers st \<and>
          next_channel st' = next_channel st \<and>
          pending_channels (pending_queries st') \<subseteq> pending_channels (pending_queries st) \<and>
          upstream_sends effects = 0) \<or>
         (\<exists>a us. upstream_servers st a = Some us \<and>
          timers st' = timers st @ [FirstAttempt (next_channel st) a (cq_normalized_question cq)
                                      (cq_upstream_servers_for_query cq)] \<and>
          upstream_servers st' = (upstream_servers st)(a \<mapsto> pending_inc us) \<and>
          next_channel st' = Suc (next_channel st) \<and>
          pending_channels (pending_queries st') \<subseteq>
            insert (next_channel st) (pending_channels (pending_queries st)) \<and>
          upstream_sends effects = 1)"
  using run
proof (cases rule: fut_process_client_query_InrE)
  case (all_down n)
  then show ?thesis by (intro disjI1) (simp add: stale_entry_sends)
next
  case (attached b st1)
  have "pending_table.more st' = pending_table.more st"
    using cap_pending_queries_more [OF attached(2)]
      maybe_add_to_existing_pending_query_more [OF attached(3)] by simp
  then have "timers st' = timers st \<and> upstream_servers st' = upstream_servers st \<and>
             next_channel st' = next_channel st"
    by (rule handler_more_fields)
  moreover have "pending_channels (pending_queries st') \<subseteq> pending_channels (pending_queries st)"
    using cap_pending_queries_channels [OF attached(2)]
      maybe_add_to_existing_pending_query_channels [OF attached(3)] by blast
  ultimately show ?thesis
    using attached(4) by (intro disjI1) simp
next
  case (dropped b st1)
  have "timers st' = timers st \<and> upstream_servers st' = upstream_servers st \<and>
        next_channel st' = next_channel st"
    using handler_more_fields [OF cap_pending_queries_more [OF dropped(2)]] dropped(4) by simp
  moreover have "upstream_sends effects = 0"
    using dropped(5) by auto
  ultimately show ?thesis
    using cap_pending_queries_channels [OF dropped(2)] dropped(4) by (intro disjI1) simp
next
  case (registered b st1 nqm idx port probe peff us)
  let ?a = "cq_upstream_servers_for_query cq ! idx"
  have fr: "timers st1 = timers st" "upstream_servers st1 = upstream_servers st"
      "next_channel st1 = next_channel st"
    using handler_more_fields [OF cap_pending_queries_more [OF registered(2)]] by simp_all
  have "peff = [] \<or> (\<exists>p a q. peff = [ProbeSend p a q])"
    using maybe_send_probe_effects [OF registered(5)] by blast
  then have sends: "upstream_sends effects = 1"
    using registered(9) by auto
  have "pending_channels (pending_queries st') \<subseteq>
          insert (next_channel st) (pending_channels (pending_queries st))"
    using pending_channels_update [of "query_key (cq_normalized_question cq)"
        "(pending_query_new nqm idx port cq (next_channel st1) (now st1))\<lparr>probed_socket_addr := probe\<rparr>"
        "pending_queries st1"]
      cap_pending_queries_channels [OF registered(2)] registered(8) fr
    by (auto simp: pending_query_new_def)
  with registered(7,8) fr sends show ?thesis
    by (intro disjI2 exI [of _ ?a] exI [of _ us]) simp
qed

text \<open>A retry leaves everything alone or arms one retry timer likewise.\<close>

lemma retry_timers:
  assumes run: "fut_retry_query cfg dr nq ups st = Inr (st', effects)"
  shows "(st' = st \<and> effects = []) \<or>
         (\<exists>a us. upstream_servers st a = Some us \<and>
          timers st' = timers st @ [RetryAttempt (next_channel st) (query_key nq) a] \<and>
          upstream_servers st' = (upstream_servers st)(a \<mapsto> pending_inc us) \<and>
          next_channel st' = Suc (next_channel st) \<and>
          pending_channels (pending_queries st') \<subseteq>
            insert (next_channel st) (pending_channels (pending_queries st)) \<and>
          upstream_sends effects = 1)"
  using run
proof (cases rule: fut_retry_query_InrE)
  case unchanged
  then show ?thesis by simp
next
  case (retried pq nqm idx port us)
  have "pending_channels (pending_queries st') \<subseteq>
          insert (next_channel st) (pending_channels (pending_queries st))"
    using pending_channels_update [of "query_key nq"
        "pq\<lparr>normalized_question_minimal := nqm, local_port := port, ts := now st,
            upstream_server_idx := idx, done_tx := next_channel st\<rparr>" "pending_queries st"] retried(7)
    by simp
  with retried(6,7,8) show ?thesis
    by (intro disjI2 exI [of _ "ups ! idx"] exI [of _ us]) simp
qed

text \<open>
  The first timer's continuation is a retry on the registry charged with the timeout;
  the retry timer's continuation charges the server and, when the key is pending,
  degrades it: the entry leaves the table with its clients' count and the timers of
  its channel are cancelled.
\<close>

lemma first_attempt_timeout_retry:
  "first_attempt_timeout cfg dr a nq ups st =
   fut_retry_query cfg dr nq ups
     (st\<lparr>upstream_servers := charge_timeout (upstream_max_failures cfg) a (upstream_servers st)\<rparr>)"
  by (simp add: first_attempt_timeout_def charge_timeout_def split: option.splits)

lemma retry_attempt_timeout_E:
  assumes run: "retry_attempt_timeout cfg key a st = (st', effects)"
  obtains (unknown) "upstream_servers st a = None"
      "st' = st\<lparr>upstream_timeout := upstream_timeout st + 1\<rparr>" "effects = []"
  | (absent) "upstream_servers st a \<noteq> None" "map_of (pending_queries st) key = None"
      "st' = st\<lparr>upstream_timeout := upstream_timeout st + 1,
        upstream_servers := charge_timeout (upstream_max_failures cfg) a (upstream_servers st)\<rparr>"
      "effects = []"
  | (degraded) pq n where "upstream_servers st a \<noteq> None" "map_of (pending_queries st) key = Some pq"
      "st' = st\<lparr>upstream_timeout := upstream_timeout st + 1,
        upstream_servers := charge_timeout (upstream_max_failures cfg) a (upstream_servers st),
        pending_queries := AList.delete key (pending_queries st),
        inflight_queries := inflight_queries st - 1, client_queries_offline := n,
        timers := filter (\<lambda>t. timer_channel t \<noteq> done_tx pq) (timers st),
        waiting_clients_count := waiting_clients_count st - of_nat (length (client_queries pq))\<rparr>"
      "upstream_sends effects = 0"
proof (cases "upstream_servers st a")
  case None
  with run show ?thesis by (intro unknown) (simp_all add: retry_attempt_timeout_def)
next
  case (Some us)
  let ?st1 = "st\<lparr>upstream_timeout := upstream_timeout st + 1, upstream_servers :=
                (upstream_servers st)(a \<mapsto> record_failure (upstream_max_failures cfg) (pending_dec us))\<rparr>"
  show ?thesis
  proof (cases "map_of (pending_queries st) key")
    case None
    with Some run show ?thesis
      by (intro absent) (simp_all add: retry_attempt_timeout_def charge_timeout_def)
  next
    case (Some pq)
    let ?st2 = "?st1\<lparr>pending_queries := AList.delete key (pending_queries st),
                     inflight_queries := inflight_queries st - 1\<rparr>"
    obtain n where n: "fst (respond_with_stale_entries cfg (client_queries pq) ?st2) =
                         ?st2\<lparr>client_queries_offline := n\<rparr>"
      using respond_with_stale_entries_frame by blast
    have "effects = snd (respond_with_stale_entries cfg (client_queries pq) ?st2)"
      using run \<open>upstream_servers st a = Some us\<close> Some
      by (simp add: retry_attempt_timeout_def maybe_respond_to_all_clients_with_stale_entry_def
          split_def Let_def)
    then have "upstream_sends effects = 0"
      by (simp add: stale_entries_sends)
    moreover have "st' = ?st2\<lparr>client_queries_offline := n,
                      timers := filter (\<lambda>t. timer_channel t \<noteq> done_tx pq) (timers st),
                      waiting_clients_count :=
                        waiting_clients_count st - of_nat (length (client_queries pq))\<rparr>"
      using run \<open>upstream_servers st a = Some us\<close> Some n
      by (simp add: retry_attempt_timeout_def maybe_respond_to_all_clients_with_stale_entry_def
          split_def Let_def)
    ultimately show ?thesis
      using \<open>upstream_servers st a = Some us\<close> Some
      by (intro degraded [of pq n]) (simp_all add: charge_timeout_def)
  qed
qed

lemma first_attempt_timeout_timers:
  assumes run: "first_attempt_timeout cfg dr a nq ups st = Inr (st', effects)"
  shows "(timers st' = timers st \<and>
          upstream_servers st' = charge_timeout (upstream_max_failures cfg) a (upstream_servers st) \<and>
          next_channel st' = next_channel st \<and> pending_queries st' = pending_queries st \<and>
          effects = []) \<or>
         (\<exists>b us. charge_timeout (upstream_max_failures cfg) a (upstream_servers st) b = Some us \<and>
          timers st' = timers st @ [RetryAttempt (next_channel st) (query_key nq) b] \<and>
          upstream_servers st' =
            (charge_timeout (upstream_max_failures cfg) a (upstream_servers st))(b \<mapsto> pending_inc us) \<and>
          next_channel st' = Suc (next_channel st) \<and>
          pending_channels (pending_queries st') \<subseteq>
            insert (next_channel st) (pending_channels (pending_queries st)) \<and>
          upstream_sends effects = 1)"
  using retry_timers [OF run [unfolded first_attempt_timeout_retry]]
  apply (elim disjE)
   apply (rule disjI1, simp)
  apply (rule disjI2, simp)
  done

text \<open>Degradation and completion only cancel timers, and send nothing upstream.\<close>

lemma retry_attempt_timeout_timers:
  assumes run: "retry_attempt_timeout cfg key a st = (st', effects)"
  shows "(\<exists>P. timers st' = filter P (timers st)) \<and>
         upstream_servers st' = charge_timeout (upstream_max_failures cfg) a (upstream_servers st) \<and>
         next_channel st' = next_channel st \<and>
         pending_channels (pending_queries st') \<subseteq> pending_channels (pending_queries st) \<and>
         upstream_sends effects = 0"
  using run
proof (cases rule: retry_attempt_timeout_E)
  case unknown
  then show ?thesis by (simp add: charge_timeout_def exI [of _ "\<lambda>_. True"])
next
  case absent
  then show ?thesis by (simp add: exI [of _ "\<lambda>_. True"])
next
  case (degraded pq n)
  then show ?thesis
    using pending_channels_delete [of key "pending_queries st"]
    by (simp add: exI [of _ "\<lambda>t. timer_channel t \<noteq> done_tx pq"])
qed

lemma pending_query_completed_timers:
  assumes run: "pending_query_completed key packet st = (st', effects)"
  shows "(\<exists>P. timers st' = filter P (timers st)) \<and> upstream_servers st' = upstream_servers st \<and>
         next_channel st' = next_channel st \<and>
         pending_channels (pending_queries st') \<subseteq> pending_channels (pending_queries st) \<and>
         upstream_sends effects = 0"
proof (cases "map_of (pending_queries st) key")
  case None
  with run show ?thesis
    by (simp add: pending_query_completed_def exI [of _ "\<lambda>_. True"])
next
  case (Some pq)
  with run show ?thesis
    using pending_channels_delete [of key "pending_queries st"]
    by (auto simp: pending_query_completed_def upstream_sends_def filter_map comp_def)
qed

subsection \<open>Every timer firing consumes weight\<close>

lemma timer_event_not_client: "is_timer_event ev \<Longrightarrow> \<not> is_client_event ev"
  by (cases ev) simp_all

lemmas timer_sums = timers_weight_def first_attempts_def armed_on_def

lemma sum_list_map_remove1_nat:
  "t \<in> set tms \<Longrightarrow> sum_list (map (f :: _ \<Rightarrow> nat) (remove1 t tms)) = sum_list (map f tms) - f t"
  using sum_list_map_remove1 [of t tms f] by simp

lemma sum_list_map_member_le:
  "t \<in> set tms \<Longrightarrow> (f :: _ \<Rightarrow> nat) t \<le> sum_list (map f tms)"
  using sum_list_map_remove1 [of t tms f] by simp

lemma timer_fires_accounting:
  assumes mem: "t \<in> set (timers s)" and run: "attempt_timer_fires cfg dr t s = Inr (s', e)"
  shows "timers_weight (timers s') < timers_weight (timers s) \<and>
         upstream_sends e + first_attempts (timers s') \<le> first_attempts (timers s)"
proof (cases t)
  case (FirstAttempt tx a nq ups)
  have w: "2 \<le> timers_weight (timers s)" and f: "1 \<le> first_attempts (timers s)"
    using sum_list_map_member_le [OF mem, of timer_weight]
      sum_list_map_member_le [OF mem, of "of_bool \<circ> is_first_attempt"] FirstAttempt
    by (simp_all add: timer_sums timer_weight_def)
  have "first_attempt_timeout cfg dr a nq ups (s\<lparr>timers := remove1 t (timers s)\<rparr>) = Inr (s', e)"
    using run FirstAttempt by (simp add: attempt_timer_fires_def)
  from first_attempt_timeout_timers [OF this] w f mem FirstAttempt show ?thesis
    by (auto simp: timer_sums timer_weight_def sum_list_map_remove1_nat)
next
  case (RetryAttempt tx key a)
  have w: "1 \<le> timers_weight (timers s)"
    using sum_list_map_member_le [OF mem, of timer_weight] RetryAttempt
    by (simp add: timer_sums timer_weight_def)
  have "retry_attempt_timeout cfg key a (s\<lparr>timers := remove1 t (timers s)\<rparr>) = (s', e)"
    using run RetryAttempt by (simp add: attempt_timer_fires_def)
  from retry_attempt_timeout_timers [OF this] obtain P
    where tm: "timers s' = filter P (remove1 t (timers s))" and sends: "upstream_sends e = 0"
    by auto
  have "timers_weight (timers s') \<le> timers_weight (remove1 t (timers s))"
    "first_attempts (timers s') \<le> first_attempts (remove1 t (timers s))"
    unfolding tm timer_sums by (rule sum_list_filter_le_nat)+
  with w mem RetryAttempt sends show ?thesis
    by (simp add: timer_sums timer_weight_def sum_list_map_remove1_nat)
qed

lemma event_step_accounting:
  assumes step: "handler_event_step cfg ev s = Some (s', e)"
  shows "of_bool (is_timer_event ev) + timers_weight (timers s') \<le>
           timers_weight (timers s) + 2 * of_bool (is_client_event ev) \<and>
         upstream_sends e + first_attempts (timers s') \<le>
           first_attempts (timers s) + 2 * of_bool (is_client_event ev)"
proof (cases ev)
  case (ClientQueryArrives dr cq)
  with step have "fut_process_client_query cfg dr cq s = Inr (s', e)"
    by (auto split: sum.splits)
  from process_timers [OF this] ClientQueryArrives show ?thesis
    by (auto simp: timer_sums timer_weight_def)
next
  case (TimerFires dr t)
  with step have "t \<in> set (timers s)" "attempt_timer_fires cfg dr t s = Inr (s', e)"
    by (auto split: if_splits sum.splits)
  from timer_fires_accounting [OF this] TimerFires show ?thesis
    by simp
next
  case (ResponseArrives key packet)
  with step have "pending_query_completed key packet s = (s', e)"
    by simp
  from pending_query_completed_timers [OF this] obtain P
    where tm: "timers s' = filter P (timers s)" and sends: "upstream_sends e = 0"
    by auto
  have "timers_weight (timers s') \<le> timers_weight (timers s)"
    "first_attempts (timers s') \<le> first_attempts (timers s)"
    unfolding tm timer_sums by (rule sum_list_filter_le_nat)+
  with ResponseArrives sends show ?thesis
    by simp
next
  case ClockTick
  with step show ?thesis by auto
next
  case (LiveSetChanges live)
  with step show ?thesis by auto
qed

lemma run_events_accounting:
  "run_events cfg evs s = Some (s', e) \<Longrightarrow>
   length (filter is_timer_event evs) + timers_weight (timers s') \<le>
     timers_weight (timers s) + 2 * length (filter is_client_event evs) \<and>
   upstream_sends e + first_attempts (timers s') \<le>
     first_attempts (timers s) + 2 * length (filter is_client_event evs)"
proof (induction evs arbitrary: s e)
  case Nil
  then show ?case by simp
next
  case (Cons ev evs)
  obtain s1 e1 where st: "handler_event_step cfg ev s = Some (s1, e1)"
    using Cons.prems by (auto split: option.splits)
  then obtain e2 where rest: "run_events cfg evs s1 = Some (s', e2)" and e: "e = e1 @ e2"
    using Cons.prems by (auto split: option.splits)
  from event_step_accounting [OF st] Cons.IH [OF rest] e show ?case
    by (cases "is_timer_event ev"; cases "is_client_event ev") auto
qed

subsection \<open>Termination of timer cascades and a global bound on sends\<close>

text \<open>
  C19: timer cascades terminate.  However the timers are scheduled, a run made only of
  timer firings has at most as many events as the weight of the armed timers: two per
  first-attempt timer (it may fire and arm one retry timer) and one per retry timer.
\<close>

theorem timer_cascade_terminates:
  assumes "run_events cfg evs s = Some (s', e)" and "list_all is_timer_event evs"
  shows "length evs \<le> timers_weight (timers s)"
proof -
  have "filter is_timer_event evs = evs" "filter is_client_event evs = []"
    using assms(2) timer_event_not_client
    by (auto simp: list_all_iff filter_id_conv filter_empty_conv)
  with run_events_accounting [OF assms(1)] show ?thesis
    by simp
qed

theorem timer_cascade_terminates_witness:
  "case run_events (example_config 2)
      [TimerFires example_draw (FirstAttempt 0 10 (example_question 1) [10, 11]),
       TimerFires example_draw (RetryAttempt 1 (example_key 1) 10)] example_state1 of
     None \<Rightarrow> False
   | Some (s', e) \<Rightarrow>
       list_all is_timer_event [TimerFires example_draw (FirstAttempt 0 10 (example_question 1) [10, 11]),
         TimerFires example_draw (RetryAttempt 1 (example_key 1) 10)] \<and>
       length [TimerFires example_draw (FirstAttempt 0 10 (example_question 1) [10, 11]),
         TimerFires example_draw (RetryAttempt 1 (example_key 1) 10)] \<le> timers_weight (timers example_state1) \<and>
       timers s' = []"
proof -
  let ?evs = "[TimerFires example_draw (FirstAttempt 0 10 (example_question 1) [10, 11]),
               TimerFires example_draw (RetryAttempt 1 (example_key 1) 10)]"
  have "\<exists>s' e. run_events (example_config 2) ?evs example_state1 = Some (s', e) \<and> timers s' = []"
    by (simp add: handler_unfold pending_query_new_def)
  then obtain s' e where run: "run_events (example_config 2) ?evs example_state1 = Some (s', e)"
    and tm: "timers s' = []"
    by blast
  have "list_all is_timer_event ?evs" by simp
  with timer_cascade_terminates [OF run] tm show ?thesis
    unfolding run by simp
qed

text \<open>
  C20: from the initial state, every run sends at most two queries upstream and fires at
  most two timers per client query it receives.  This is the specification's "at most two
  upstream sends per query" (section 8) counted over the whole run.  It holds even though
  one pending query may be sent three times (C7): the sends of that scenario are charged
  to its two client queries, and the bound is reached there.
\<close>

theorem run_sends_bound:
  assumes "run_events cfg evs (handler_init servers live) = Some (s, e)"
  shows "upstream_sends e \<le> 2 * length (filter is_client_event evs) \<and>
         length (filter is_timer_event evs) \<le> 2 * length (filter is_client_event evs)"
  using run_events_accounting [OF assms] by (simp add: handler_init_def timer_sums)

theorem run_sends_bound_witness:
  "case run_events (example_config 1)
      [ClientQueryArrives example_draw (example_query 1 7), ClientQueryArrives example_draw (example_query 1 8),
       TimerFires example_draw (FirstAttempt 0 10 (example_question 1) [10, 11]),
       TimerFires example_draw (FirstAttempt 1 10 (example_question 1) [10, 11])] example_start of
     None \<Rightarrow> False
   | Some (s, e) \<Rightarrow> upstream_sends e = 4 \<and>
       upstream_sends e \<le> 2 * length (filter is_client_event
         [ClientQueryArrives example_draw (example_query 1 7), ClientQueryArrives example_draw (example_query 1 8),
          TimerFires example_draw (FirstAttempt 0 10 (example_question 1) [10, 11]),
          TimerFires example_draw (FirstAttempt 1 10 (example_question 1) [10, 11])])"
proof -
  let ?evs = "[ClientQueryArrives example_draw (example_query 1 7), ClientQueryArrives example_draw (example_query 1 8),
       TimerFires example_draw (FirstAttempt 0 10 (example_question 1) [10, 11]),
       TimerFires example_draw (FirstAttempt 1 10 (example_question 1) [10, 11])]"
  have "\<exists>s e. run_events (example_config 1) ?evs example_start = Some (s, e) \<and> upstream_sends e = 4"
    by (simp add: handler_unfold pending_query_new_def)
  then obtain s e where run: "run_events (example_config 1) ?evs example_start = Some (s, e)"
    and four: "upstream_sends e = 4"
    by blast
  from run_sends_bound [OF run] four show ?thesis
    unfolding run by simp
qed

subsection \<open>Channel identifiers are fresh\<close>

lemma distinct_map_remove1_filter:
  "distinct (map f tms) \<Longrightarrow> remove1 t tms = filter (\<lambda>x. t \<noteq> x) tms"
  by (simp add: distinct_remove1_removeAll removeAll_filter_not_eq distinct_map)

lemma channels_ok_filter:
  "channels_ok tms n pcs \<Longrightarrow> pcs' \<subseteq> pcs \<Longrightarrow> channels_ok (filter P tms) n pcs'"
  by (auto simp: channels_ok_def distinct_map_filter)

lemma channels_ok_remove1:
  assumes ok: "channels_ok tms n pcs"
  shows "channels_ok (remove1 t tms) n pcs"
proof -
  have "remove1 t tms = filter (\<lambda>x. t \<noteq> x) tms"
    using ok by (intro distinct_map_remove1_filter [of timer_channel]) (simp add: channels_ok_def)
  with channels_ok_filter [OF ok subset_refl] show ?thesis by simp
qed

lemma channels_ok_arm:
  "channels_ok tms n pcs \<Longrightarrow> timer_channel t = n \<Longrightarrow> pcs' \<subseteq> insert n pcs \<Longrightarrow>
   channels_ok (tms @ [t]) (Suc n) pcs'"
  by (fastforce simp: channels_ok_def)

lemma channels_ok_same:
  "channels_ok tms n pcs \<Longrightarrow> pcs' \<subseteq> pcs \<Longrightarrow> channels_ok tms n pcs'"
  by (auto simp: channels_ok_def)

lemma event_step_channels:
  assumes step: "handler_event_step cfg ev s = Some (s', e)"
    and ok: "channels_ok (timers s) (next_channel s) (pending_channels (pending_queries s))"
  shows "channels_ok (timers s') (next_channel s') (pending_channels (pending_queries s'))"
proof (cases ev)
  case (ClientQueryArrives dr cq)
  with step have "fut_process_client_query cfg dr cq s = Inr (s', e)"
    by (auto split: sum.splits)
  from process_timers [OF this] ok show ?thesis
    by (auto intro: channels_ok_same intro!: channels_ok_arm)
next
  case (TimerFires dr t)
  with step have mem: "t \<in> set (timers s)" and run: "attempt_timer_fires cfg dr t s = Inr (s', e)"
    by (auto split: if_splits sum.splits)
  have ok1: "channels_ok (remove1 t (timers s)) (next_channel s) (pending_channels (pending_queries s))"
    using ok by (rule channels_ok_remove1)
  show ?thesis
  proof (cases t)
    case (FirstAttempt tx a nq ups)
    with run have "first_attempt_timeout cfg dr a nq ups (s\<lparr>timers := remove1 t (timers s)\<rparr>) = Inr (s', e)"
      by (simp add: attempt_timer_fires_def)
    from first_attempt_timeout_timers [OF this] ok1 show ?thesis
      by (auto intro!: channels_ok_arm)
  next
    case (RetryAttempt tx key a)
    with run have "retry_attempt_timeout cfg key a (s\<lparr>timers := remove1 t (timers s)\<rparr>) = (s', e)"
      by (simp add: attempt_timer_fires_def)
    from retry_attempt_timeout_timers [OF this] ok1 show ?thesis
      by (auto intro: channels_ok_filter)
  qed
next
  case (ResponseArrives key packet)
  with step have "pending_query_completed key packet s = (s', e)"
    by simp
  from pending_query_completed_timers [OF this] ok show ?thesis
    by (auto intro: channels_ok_filter)
next
  case ClockTick
  with step ok show ?thesis by auto
next
  case (LiveSetChanges live)
  with step ok show ?thesis by auto
qed

lemma reachable_channels_ok:
  "reachable cfg s \<Longrightarrow> channels_ok (timers s) (next_channel s) (pending_channels (pending_queries s))"
proof (induction rule: reachable.induct)
  case (init servers live)
  show ?case by (simp add: handler_init_def channels_ok_def pending_channels_def)
next
  case (step s effects s')
  then obtain ev where "handler_event_step cfg ev s = Some (s', effects)"
    using handler_event_step_complete by blast
  then show ?case using step.IH by (rule event_step_channels)
qed

subsection \<open>The registry counts every armed attempt\<close>

lemma armed_on_le_length: "armed_on a tms \<le> length tms"
  by (induction tms) (simp_all add: armed_on_def)

lemma armed_on_append [simp]:
  "armed_on a (tms @ [t]) = armed_on a tms + of_bool (timer_target t = a)"
  by (simp add: armed_on_def)

lemma counts_ok_filter:
  "counts_ok servers tms \<Longrightarrow> counts_ok servers (filter P tms)"
  unfolding counts_ok_def armed_on_def
  by (metis (no_types, lifting) sum_list_filter_le_nat le_trans)

lemma counts_ok_fire:
  assumes mem: "t \<in> set tms" and ok: "counts_ok servers tms"
  shows "counts_ok (charge_timeout m (timer_target t) servers) (remove1 t tms)"
  unfolding counts_ok_def
proof (intro allI impI)
  fix b us'
  assume b: "charge_timeout m (timer_target t) servers b = Some us'"
  have rm: "armed_on b (remove1 t tms) = armed_on b tms - of_bool (timer_target t = b)"
    using sum_list_map_remove1_nat [OF mem, of "\<lambda>x. of_bool (timer_target x = b)"]
    by (simp add: armed_on_def)
  show "armed_on b (remove1 t tms) \<le> unat (pending_queries_count us')"
  proof (cases "b = timer_target t")
    case True
    then obtain us where us: "servers b = Some us" and us': "us' = record_failure m (pending_dec us)"
      using b by (auto simp: charge_timeout_def split: option.splits)
    have "armed_on b tms \<le> unat (pending_queries_count us)"
      using ok us by (simp add: counts_ok_def)
    with True rm us' show ?thesis
      by (simp add: unat_pending_dec)
  next
    case False
    then have "servers b = Some us'"
      using b by (auto simp: charge_timeout_def split: option.splits)
    with ok False rm show ?thesis
      by (simp add: counts_ok_def)
  qed
qed

lemma counts_ok_arm:
  assumes ok: "counts_ok servers tms" and us: "servers a = Some us"
    and room: "length tms < 2 ^ 64 - 1" and tgt: "timer_target t = a"
  shows "counts_ok (servers(a \<mapsto> pending_inc us)) (tms @ [t])"
  unfolding counts_ok_def
proof (intro allI impI)
  fix b us'
  assume b: "(servers(a \<mapsto> pending_inc us)) b = Some us'"
  show "armed_on b (tms @ [t]) \<le> unat (pending_queries_count us')"
  proof (cases "b = a")
    case True
    then have us': "us' = pending_inc us"
      using b by simp
    have "armed_on a tms \<le> unat (pending_queries_count us)"
      using ok us by (simp add: counts_ok_def)
    moreover have "armed_on a tms < 2 ^ 64 - 1"
      using armed_on_le_length [of a tms] room by linarith
    ultimately show ?thesis
      using True us' tgt by (simp add: unat_pending_inc)
  next
    case False
    with b ok tgt show ?thesis
      by (simp add: counts_ok_def)
  qed
qed

lemma event_step_counts:
  assumes step: "handler_event_step cfg ev s = Some (s', e)"
    and ok: "counts_ok (upstream_servers s) (timers s)" and room: "length (timers s) < 2 ^ 64 - 1"
  shows "counts_ok (upstream_servers s') (timers s') \<and> length (timers s') \<le> Suc (length (timers s))"
proof (cases ev)
  case (ClientQueryArrives dr cq)
  with step have "fut_process_client_query cfg dr cq s = Inr (s', e)"
    by (auto split: sum.splits)
  from process_timers [OF this] ok room show ?thesis
    by (auto intro!: counts_ok_arm)
next
  case (TimerFires dr t)
  with step have mem: "t \<in> set (timers s)" and run: "attempt_timer_fires cfg dr t s = Inr (s', e)"
    by (auto split: if_splits sum.splits)
  have ok1: "counts_ok (charge_timeout (upstream_max_failures cfg) (timer_target t) (upstream_servers s))
               (remove1 t (timers s))"
    using mem ok by (rule counts_ok_fire)
  have len1: "length (remove1 t (timers s)) < 2 ^ 64 - 1"
    using room mem by (simp add: length_remove1)
  show ?thesis
  proof (cases t)
    case (FirstAttempt tx a nq ups)
    with run have "first_attempt_timeout cfg dr a nq ups (s\<lparr>timers := remove1 t (timers s)\<rparr>) = Inr (s', e)"
      by (simp add: attempt_timer_fires_def)
    from first_attempt_timeout_timers [OF this] ok1 len1 mem FirstAttempt show ?thesis
      by (auto intro!: counts_ok_arm simp: length_remove1)
  next
    case (RetryAttempt tx key a)
    with run have "retry_attempt_timeout cfg key a (s\<lparr>timers := remove1 t (timers s)\<rparr>) = (s', e)"
      by (simp add: attempt_timer_fires_def)
    from retry_attempt_timeout_timers [OF this] ok1 mem RetryAttempt show ?thesis
      by (auto intro: counts_ok_filter simp: length_remove1 le_trans [OF length_filter_le])
  qed
next
  case (ResponseArrives key packet)
  with step have "pending_query_completed key packet s = (s', e)"
    by simp
  from pending_query_completed_timers [OF this] ok show ?thesis
    by (auto intro: counts_ok_filter simp: le_SucI)
next
  case ClockTick
  with step ok show ?thesis by auto
next
  case (LiveSetChanges live)
  with step ok show ?thesis by auto
qed

lemma run_events_counts:
  "run_events cfg evs s = Some (s', e) \<Longrightarrow> counts_ok (upstream_servers s) (timers s) \<Longrightarrow>
   length (timers s) + length evs < 2 ^ 64 - 1 \<Longrightarrow> counts_ok (upstream_servers s') (timers s')"
proof (induction evs arbitrary: s e)
  case Nil
  then show ?case by simp
next
  case (Cons ev evs)
  obtain s1 e1 where st: "handler_event_step cfg ev s = Some (s1, e1)"
    using Cons.prems(1) by (auto split: option.splits)
  then obtain e2 where rest: "run_events cfg evs s1 = Some (s', e2)"
    using Cons.prems(1) by (auto split: option.splits)
  have "length (timers s) < 2 ^ 64 - 1"
    using Cons.prems(3) by simp
  from event_step_counts [OF st Cons.prems(2) this]
  have "counts_ok (upstream_servers s1) (timers s1)" "length (timers s1) + length evs < 2 ^ 64 - 1"
    using Cons.prems(3) by auto
  with rest show ?case by (rule Cons.IH)
qed

text \<open>
  C21: the registry never undercounts.  In every run from the initial state that is
  shorter than \<open>2^64 - 1\<close> events, every attempt whose timer is armed on a known server
  is counted in that server's \<open>pending_queries_count\<close>: the saturating increments never
  saturate, and each decrement of a timer's continuation matches the increment of its
  attempt.  (A \<open>done_tx.send(())\<close> cancels a timer without a decrement, so the count
  may exceed the armed attempts; the P2 mode then sees the server as busier than it is.)
\<close>

theorem pending_count_covers_armed:
  assumes "run_events cfg evs (handler_init servers live) = Some (s, e)"
    and "length evs < 2 ^ 64 - 1" and "upstream_servers s a = Some us"
  shows "armed_on a (timers s) \<le> unat (pending_queries_count us)"
proof -
  have "counts_ok (upstream_servers (handler_init servers live)) (timers (handler_init servers live))"
    by (simp add: handler_init_def counts_ok_def armed_on_def)
  from run_events_counts [OF assms(1) this] assms(2,3) show ?thesis
    by (simp add: handler_init_def counts_ok_def)
qed

theorem pending_count_covers_armed_witness:
  "case run_events (example_config 1)
      [ClientQueryArrives example_draw (example_query 1 7), ClientQueryArrives example_draw (example_query 1 8),
       TimerFires example_draw (FirstAttempt 0 10 (example_question 1) [10, 11])] example_start of
     None \<Rightarrow> False
   | Some (s, e) \<Rightarrow> (\<exists>us. upstream_servers s 10 = Some us \<and> armed_on 10 (timers s) = 2 \<and>
       armed_on 10 (timers s) \<le> unat (pending_queries_count us))"
proof -
  let ?evs = "[ClientQueryArrives example_draw (example_query 1 7), ClientQueryArrives example_draw (example_query 1 8),
       TimerFires example_draw (FirstAttempt 0 10 (example_question 1) [10, 11])]"
  have "\<exists>s e us. run_events (example_config 1) ?evs example_start = Some (s, e) \<and>
          upstream_servers s 10 = Some us \<and> armed_on 10 (timers s) = 2"
    by (simp add: handler_unfold pending_query_new_def armed_on_def)
  then obtain s e us where run: "run_events (example_config 1) ?evs example_start = Some (s, e)"
    and us: "upstream_servers s 10 = Some us" and two: "armed_on 10 (timers s) = 2"
    by auto
  have "length ?evs < 2 ^ 64 - 1" by simp
  from pending_count_covers_armed [OF run this us] us two show ?thesis
    unfolding run by simp
qed

text \<open>
  C22: the registry's count is not the number of pending queries on a server, which the
  specification requires (section 8).  With \<open>max_waiting_clients = 1\<close>, a query for a
  second key evicts the pending query of the first without decrementing its server's
  count; the table then holds one pending query on server 10, whose count is 2.  The
  count comes back only when the evicted query's timer fires.
\<close>

theorem eviction_count_exceeds_pending:
  "case run_events (example_config 1)
      [ClientQueryArrives example_draw (example_query 1 7), ClientQueryArrives example_draw (example_query 2 8)]
      example_start of
     None \<Rightarrow> False
   | Some (s, e) \<Rightarrow> reachable (example_config 1) s \<and> map fst (pending_queries s) = [example_key 2] \<and>
       (\<exists>us. upstream_servers s 10 = Some us \<and> unat (pending_queries_count us) = 2)"
proof -
  let ?evs = "[ClientQueryArrives example_draw (example_query 1 7), ClientQueryArrives example_draw (example_query 2 8)]"
  have "\<exists>s e. run_events (example_config 1) ?evs example_start = Some (s, e) \<and>
          map fst (pending_queries s) = [example_key 2] \<and>
          (\<exists>us. upstream_servers s 10 = Some us \<and> unat (pending_queries_count us) = 2)"
    by (simp add: handler_unfold pending_query_new_def saturating_add_def)
  then obtain s e where run: "run_events (example_config 1) ?evs example_start = Some (s, e)"
    and rest: "map fst (pending_queries s) = [example_key 2] \<and>
          (\<exists>us. upstream_servers s 10 = Some us \<and> unat (pending_queries_count us) = 2)"
    by auto
  have "reachable (example_config 1) s"
    using reachable.init run by (rule run_events_reachable)
  with rest show ?thesis
    unfolding run by simp
qed

end
