(* ===== verification/Abstract_Table.thy ===== *)
theory Abstract_Table
  imports Timers
begin

text \<open>
  An abstract specification of what the pending table promises its clients (sections 4.4
  and 4.5 of the specification): a map from each query key to the clients waiting for it,
  in arrival order.  A client is admitted only while fewer clients than the limit wait,
  after evicting one key when the limit is reached; a key's clients leave together, when
  a response completes it, when its retry times out, or when it is evicted.  The handler
  refines this specification: the abstraction of the table is \<open>abs_table\<close>.
\<close>

type_synonym waiting_map = "pending_query_key \<rightharpoonup> client_query list"

definition abs_table :: "pending_queries \<Rightarrow> waiting_map" where
  "abs_table pqs k = map_option client_queries (map_of pqs k)"

definition waiting_total :: "waiting_map \<Rightarrow> nat" where
  "waiting_total w = (\<Sum>k\<in>dom w. length (the (w k)))"

text \<open>A client joins the clients of its key, or opens the key.\<close>

definition waiting_attach :: "client_query \<Rightarrow> waiting_map \<Rightarrow> waiting_map" where
  "waiting_attach cq w =
     (let k = query_key (cq_normalized_question cq) in
      case w k of
        Some cqs \<Rightarrow> w(k \<mapsto> cqs @ [cq])
      | None \<Rightarrow> w(k \<mapsto> [cq]))"

text \<open>The abstract steps, for an admission limit \<open>m\<close> (\<open>max_waiting_clients\<close>).\<close>

inductive waiting_step :: "nat \<Rightarrow> waiting_map \<Rightarrow> waiting_map \<Rightarrow> bool" for m where
  stay: "waiting_step m w w"
| leave: "w k \<noteq> None \<Longrightarrow> waiting_step m w (w(k := None))"
| admit: "waiting_total w < max 1 m \<Longrightarrow> waiting_step m w (waiting_attach cq w)"
| evict_admit: "w k \<noteq> None \<Longrightarrow> m \<le> waiting_total w \<Longrightarrow> waiting_total (w(k := None)) < max 1 m \<Longrightarrow>
    waiting_step m w (waiting_attach cq (w(k := None)))"

subsection \<open>The abstraction of the table operations\<close>

lemma abs_table_Nil [simp]: "abs_table [] = Map.empty"
  by (simp add: abs_table_def fun_eq_iff)

lemma abs_table_Cons [simp]:
  "abs_table ((k, pq) # pqs) = (abs_table pqs)(k \<mapsto> client_queries pq)"
  by (simp add: abs_table_def fun_eq_iff)

lemma abs_table_delete:
  "abs_table (AList.delete k pqs) = (abs_table pqs)(k := None)"
  by (simp add: abs_table_def fun_eq_iff delete_conv')

lemma abs_table_update:
  "abs_table (AList.update k pq pqs) = (abs_table pqs)(k \<mapsto> client_queries pq)"
  by (simp add: abs_table_def fun_eq_iff update_conv')

lemma abs_table_None:
  "abs_table pqs k = None \<longleftrightarrow> map_of pqs k = None"
  by (simp add: abs_table_def)

lemma dom_abs_table: "dom (abs_table pqs) = fst ` set pqs"
  by (simp add: abs_table_def dom_def dom_map_of_conv_image_fst [symmetric])

lemma waiting_total_abs_table:
  "distinct (map fst pqs) \<Longrightarrow> waiting_total (abs_table pqs) = clients_in pqs"
proof (induction pqs)
  case Nil
  then show ?case by (simp add: waiting_total_def)
next
  case (Cons p pqs)
  obtain k pq where p: "p = (k, pq)" by fastforce
  have notin: "k \<notin> fst ` set pqs" using Cons.prems p by simp
  have "abs_table (p # pqs) = (abs_table pqs)(k \<mapsto> client_queries pq)"
    by (simp add: abs_table_def fun_eq_iff p)
  moreover have "k \<notin> dom (abs_table pqs)"
    using notin by (simp add: dom_abs_table)
  moreover have "finite (dom (abs_table pqs))"
    by (simp add: dom_abs_table)
  ultimately have "waiting_total (abs_table (p # pqs)) =
      length (client_queries pq) + waiting_total (abs_table pqs)"
    unfolding waiting_total_def by (simp add: sum.insert_if) (rule sum.cong, auto)
  with Cons show ?case
    by (simp add: p clients_in_def del: abs_table_Cons)
qed

lemma cap_pending_queries_abs:
  assumes inv: "table_inv m t" and cap: "cap_pending_queries m t = Inr (b, t')"
  shows "abs_table (pending_queries t') = abs_table (pending_queries t) \<or>
         (\<exists>k. abs_table (pending_queries t) k \<noteq> None \<and>
              abs_table (pending_queries t') = (abs_table (pending_queries t))(k := None) \<and>
              unat m \<le> clients_in (pending_queries t))"
proof (cases "waiting_clients_count t < m")
  case True
  with cap show ?thesis by (simp add: cap_pending_queries_def)
next
  case full: False
  show ?thesis
  proof (cases "pending_queries t")
    case Nil
    with cap full show ?thesis by (simp add: cap_pending_queries_def)
  next
    case (Cons p rest)
    obtain k pq where p: "p = (k, pq)" by fastforce
    have "unat m \<le> clients_in (pending_queries t)"
      using full inv by (simp add: table_inv_def word_less_nat_alt)
    moreover have "abs_table (pending_queries t) k \<noteq> None"
      using Cons p by (simp add: abs_table_def)
    moreover have "abs_table (pending_queries t') = (abs_table (pending_queries t))(k := None)"
      using cap full Cons p
      by (auto simp: cap_pending_queries_def Let_def abs_table_delete split: if_splits)
    ultimately show ?thesis by blast
  qed
qed

lemma waiting_attach_Some:
  "w (query_key (cq_normalized_question cq)) = Some cqs \<Longrightarrow>
   waiting_attach cq w = w(query_key (cq_normalized_question cq) \<mapsto> cqs @ [cq])"
  by (simp add: waiting_attach_def)

lemma waiting_attach_None:
  "w (query_key (cq_normalized_question cq)) = None \<Longrightarrow>
   waiting_attach cq w = w(query_key (cq_normalized_question cq) \<mapsto> [cq])"
  by (simp add: waiting_attach_def)

text \<open>
  Admission control is an abstract step, and so is admission control followed by the
  attachment of a client.
\<close>

lemma cap_pending_queries_refines:
  assumes inv: "table_inv m t" and cap: "cap_pending_queries m t = Inr (b, t')"
  shows "waiting_step (unat m) (abs_table (pending_queries t)) (abs_table (pending_queries t')) \<and>
         waiting_step (unat m) (abs_table (pending_queries t)) (waiting_attach cq (abs_table (pending_queries t')))"
proof -
  have inv': "table_inv m t'" and room: "clients_in (pending_queries t') < waiting_limit m"
    using cap_pending_queries_ok [OF inv] cap by auto
  have tot': "waiting_total (abs_table (pending_queries t')) < max 1 (unat m)"
    using inv' room by (simp add: table_inv_def waiting_total_abs_table waiting_limit_def)
  have tot: "waiting_total (abs_table (pending_queries t)) = clients_in (pending_queries t)"
    using inv by (simp add: table_inv_def waiting_total_abs_table)
  from cap_pending_queries_abs [OF inv cap] show ?thesis
  proof
    assume "abs_table (pending_queries t') = abs_table (pending_queries t)"
    with tot' show ?thesis
      by (auto intro: waiting_step.stay waiting_step.admit)
  next
    assume "\<exists>k. abs_table (pending_queries t) k \<noteq> None \<and>
              abs_table (pending_queries t') = (abs_table (pending_queries t))(k := None) \<and>
              unat m \<le> clients_in (pending_queries t)"
    then obtain k where k: "abs_table (pending_queries t) k \<noteq> None"
      and ev: "abs_table (pending_queries t') = (abs_table (pending_queries t))(k := None)"
      and full: "unat m \<le> clients_in (pending_queries t)"
      by blast
    show ?thesis
      using waiting_step.leave [where m = "unat m" and w = "abs_table (pending_queries t)" and k = k]
        waiting_step.evict_admit [where m = "unat m" and w = "abs_table (pending_queries t)" and k = k
          and cq = cq] k full tot tot' ev
      by simp
  qed
qed

lemma process_refines:
  assumes inv: "table_inv (max_waiting_clients cfg) st"
    and run: "fut_process_client_query cfg dr cq st = Inr (st', effects)"
  shows "waiting_step (unat (max_waiting_clients cfg)) (abs_table (pending_queries st))
           (abs_table (pending_queries st'))"
  using run
proof (cases rule: fut_process_client_query_InrE)
  case (all_down n)
  then show ?thesis by (simp add: waiting_step.stay)
next
  case (attached b st1)
  note ref = cap_pending_queries_refines [OF inv attached(2), of cq]
  obtain pq where pq: "map_of (pending_queries st1) (query_key (cq_normalized_question cq)) = Some pq"
    and st': "pending_queries st' = AList.update (query_key (cq_normalized_question cq))
               (pq\<lparr>client_queries := client_queries pq @ [cq]\<rparr>) (pending_queries st1)"
    using attached(3) by (auto simp: maybe_add_to_existing_pending_query_def split: option.splits)
  have "abs_table (pending_queries st') = waiting_attach cq (abs_table (pending_queries st1))"
    using pq st' by (simp add: abs_table_update waiting_attach_Some abs_table_def)
  with ref show ?thesis by simp
next
  case (dropped b st1)
  with cap_pending_queries_refines [OF inv dropped(2)] show ?thesis by simp
next
  case (registered b st1 nqm idx port probe peff us)
  note ref = cap_pending_queries_refines [OF inv registered(2), of cq]
  have "abs_table (pending_queries st1) (query_key (cq_normalized_question cq)) = None"
    using registered(3) by (simp add: abs_table_None)
  then have "abs_table (pending_queries st') = waiting_attach cq (abs_table (pending_queries st1))"
    using registered(8) by (simp add: abs_table_update waiting_attach_None pending_query_new_def)
  with ref show ?thesis by simp
qed

lemma abs_table_update_same:
  "map_of pqs k = Some pq \<Longrightarrow> client_queries pq' = client_queries pq \<Longrightarrow>
   abs_table (AList.update k pq' pqs) = abs_table pqs"
  by (simp add: abs_table_update fun_eq_iff abs_table_def)

text \<open>A retry rewrites an entry in place with the same clients: the abstraction stays.\<close>

lemma retry_abs:
  assumes "fut_retry_query cfg dr nq ups st = Inr (st', effects)"
  shows "abs_table (pending_queries st') = abs_table (pending_queries st)"
  using assms
proof (cases rule: fut_retry_query_InrE)
  case unchanged
  then show ?thesis by simp
next
  case (retried pq nqm idx port us)
  then show ?thesis by (simp add: abs_table_update_same)
qed

lemma first_attempt_timeout_abs:
  "first_attempt_timeout cfg dr a nq ups st = Inr (st', effects) \<Longrightarrow>
   abs_table (pending_queries st') = abs_table (pending_queries st)"
  unfolding first_attempt_timeout_retry by (drule retry_abs) simp

text \<open>Degradation and completion remove the key of their pending query, if it is there.\<close>

lemma leave_or_stay:
  assumes "pqs' = pqs \<or> (map_of pqs k \<noteq> None \<and> pqs' = AList.delete k pqs)"
  shows "waiting_step m (abs_table pqs) (abs_table pqs')"
  using assms
proof
  assume "pqs' = pqs"
  then show ?thesis by (simp add: waiting_step.stay)
next
  assume del: "map_of pqs k \<noteq> None \<and> pqs' = AList.delete k pqs"
  then have "abs_table pqs k \<noteq> None" by (simp add: abs_table_None)
  then have "waiting_step m (abs_table pqs) ((abs_table pqs)(k := None))"
    by (rule waiting_step.leave)
  with del show ?thesis by (simp add: abs_table_delete)
qed

lemma retry_attempt_timeout_pending:
  "pending_queries (fst (retry_attempt_timeout cfg key a st)) = pending_queries st \<or>
   (map_of (pending_queries st) key \<noteq> None \<and>
    pending_queries (fst (retry_attempt_timeout cfg key a st)) = AList.delete key (pending_queries st))"
proof -
  obtain st' effects where run: "retry_attempt_timeout cfg key a st = (st', effects)"
    by fastforce
  from run show ?thesis
    by (cases rule: retry_attempt_timeout_E) (simp_all add: run)
qed

lemma pending_query_completed_pending:
  "pending_queries (fst (pending_query_completed key packet st)) = pending_queries st \<or>
   (map_of (pending_queries st) key \<noteq> None \<and>
    pending_queries (fst (pending_query_completed key packet st)) = AList.delete key (pending_queries st))"
  by (simp add: pending_query_completed_def split: option.splits)

lemma attempt_timer_fires_refines:
  assumes "attempt_timer_fires cfg dr t st = Inr (st', effects)"
  shows "waiting_step m (abs_table (pending_queries st)) (abs_table (pending_queries st'))"
proof (cases t)
  case (FirstAttempt tx a nq ups)
  with assms have "first_attempt_timeout cfg dr a nq ups (st\<lparr>timers := remove1 t (timers st)\<rparr>) = Inr (st', effects)"
    by (simp add: attempt_timer_fires_def)
  from first_attempt_timeout_abs [OF this] show ?thesis
    by (simp add: waiting_step.stay)
next
  case (RetryAttempt tx key a)
  with assms have "st' = fst (retry_attempt_timeout cfg key a (st\<lparr>timers := remove1 t (timers st)\<rparr>))"
    by (simp add: attempt_timer_fires_def)
  with retry_attempt_timeout_pending [of cfg key a "st\<lparr>timers := remove1 t (timers st)\<rparr>"]
  show ?thesis
    by (intro leave_or_stay) simp
qed

subsection \<open>The handler refines the specification of waiting clients\<close>

text \<open>
  C23: refinement.  Every step of the handler from a reachable state is a step of the
  abstract specification on the waiting clients: admission control, coalescing and
  registration admit the client (after evicting one key when the limit is reached),
  retries and the clock change nothing, and degradation and completion remove one key.
\<close>

theorem handler_step_refines_waiting:
  assumes reach: "reachable cfg s" and step: "handler_step cfg s effects s'"
  shows "waiting_step (unat (max_waiting_clients cfg)) (abs_table (pending_queries s))
           (abs_table (pending_queries s'))"
  using step
proof cases
  case (client_query dr cq)
  with reachable_table_inv [OF reach] show ?thesis
    by (blast intro: process_refines)
next
  case (timer_fires t dr)
  then show ?thesis by (blast intro: attempt_timer_fires_refines)
next
  case (response key packet)
  then show ?thesis
    using pending_query_completed_pending [of key packet s] by (intro leave_or_stay) simp
next
  case clock
  then show ?thesis by (simp add: waiting_step.stay)
next
  case (health live)
  then show ?thesis by (simp add: waiting_step.stay)
qed

theorem handler_step_refines_waiting_witness:
  "case run_events (example_config 2) [ClientQueryArrives example_draw (example_query 1 7)] example_start of
     None \<Rightarrow> False
   | Some (s, _) \<Rightarrow>
       (case handler_event_step (example_config 2) (ClientQueryArrives example_draw (example_query 1 8)) s of
          None \<Rightarrow> False
        | Some (s', e) \<Rightarrow> reachable (example_config 2) s \<and> handler_step (example_config 2) s e s' \<and>
            abs_table (pending_queries s') (example_key 1) = Some [example_query 1 7, example_query 1 8] \<and>
            waiting_step 2 (abs_table (pending_queries s)) (abs_table (pending_queries s')))"
proof -
  let ?ev = "ClientQueryArrives example_draw (example_query 1 8)"
  have "\<exists>s e. run_events (example_config 2) [ClientQueryArrives example_draw (example_query 1 7)]
      example_start = Some (s, e)"
    by (simp add: handler_unfold)
  then obtain s e where run: "run_events (example_config 2) [ClientQueryArrives example_draw (example_query 1 7)]
      example_start = Some (s, e)"
    by blast
  have reach: "reachable (example_config 2) s"
    using reachable.init run by (rule run_events_reachable)
  have "\<exists>s' e'. handler_event_step (example_config 2) ?ev s = Some (s', e') \<and>
          abs_table (pending_queries s') (example_key 1) = Some [example_query 1 7, example_query 1 8]"
    using run by (auto simp: handler_unfold pending_query_new_def abs_table_def)
  then obtain s' e' where st: "handler_event_step (example_config 2) ?ev s = Some (s', e')"
    and ab: "abs_table (pending_queries s') (example_key 1) = Some [example_query 1 7, example_query 1 8]"
    by blast
  have step: "handler_step (example_config 2) s e' s'"
    using st by (rule handler_event_step_sound)
  from handler_step_refines_waiting [OF reach step] reach step ab st show ?thesis
    unfolding run by (simp del: handler_event_step.simps)
qed

text \<open>
  Functional refinement of \<open>maybe_add_to_existing_pending_query\<close>: on the
  abstraction it is the attachment of the client when its key is pending, and nothing
  otherwise.
\<close>

theorem maybe_add_refines_attach:
  "abs_table (pending_queries (snd (maybe_add_to_existing_pending_query
      (query_key (cq_normalized_question cq)) cq t))) =
   (if abs_table (pending_queries t) (query_key (cq_normalized_question cq)) = None
    then abs_table (pending_queries t)
    else waiting_attach cq (abs_table (pending_queries t)))"
  by (auto simp: maybe_add_to_existing_pending_query_def abs_table_update waiting_attach_def
      abs_table_def split: option.splits)

subsection \<open>Registration and completion are inverse on the table\<close>

text \<open>
  C25: round trip of registration and completion.  A client query for a key that is not
  pending, arriving while fewer clients than the limit wait, that the handler sends
  upstream, followed by the response for that key: the response goes to that client and
  only to it, and the table, the waiting counter and the gauge are exactly as before.
\<close>

theorem register_complete_roundtrip:
  assumes room: "waiting_clients_count st < max_waiting_clients cfg"
    and fresh: "map_of (pending_queries st) (query_key (cq_normalized_question cq)) = None"
    and run: "fut_process_client_query cfg dr cq st = Inr (st', effects)"
    and sent: "upstream_sends effects \<noteq> 0"
    and fin: "pending_query_completed (query_key (cq_normalized_question cq)) packet st' = (st'', e)"
  shows "pending_queries st'' = pending_queries st \<and> e = [ClientResponse (cq_reply cq) packet] \<and>
         waiting_clients_count st'' = waiting_clients_count st \<and>
         inflight_queries st'' = inflight_queries st"
  using run
proof (cases rule: fut_process_client_query_InrE)
  case (all_down n)
  with sent show ?thesis by (simp add: stale_entry_sends)
next
  case (attached b st1)
  with sent show ?thesis by simp
next
  case (dropped b st1)
  with sent show ?thesis by auto
next
  case (registered b st1 nqm idx port probe peff us)
  with room have st1: "st1 = st" by (simp add: cap_pending_queries_def)
  have "query_key (cq_normalized_question cq) \<notin> fst ` set (pending_queries st)"
    using fresh by (simp add: map_of_eq_None_iff)
  with registered(8) st1 fin show ?thesis
    by (auto simp: pending_query_completed_def update_conv' delete_update_same delete_id
        pending_query_new_def)
qed

theorem register_complete_roundtrip_witness:
  "waiting_clients_count example_start < max_waiting_clients (example_config 2) \<and>
   map_of (pending_queries example_start) (query_key (example_question 1)) = None \<and>
   (case fut_process_client_query (example_config 2) example_draw (example_query 1 7) example_start of
      Inl _ \<Rightarrow> False
    | Inr (s', e) \<Rightarrow> upstream_sends e \<noteq> 0 \<and>
        (case pending_query_completed (query_key (example_question 1)) [42] s' of
          (s'', e'') \<Rightarrow> pending_queries s'' = [] \<and> e'' = [ClientResponse 7 [42]] \<and>
             waiting_clients_count s'' = 0 \<and> inflight_queries s'' = 0))"
proof -
  let ?cq = "example_query 1 7"
  have h: "waiting_clients_count example_start < max_waiting_clients (example_config 2)"
    "map_of (pending_queries example_start) (query_key (cq_normalized_question ?cq)) = None"
    by (simp_all add: handler_init_def)
  have "\<exists>s' e. fut_process_client_query (example_config 2) example_draw ?cq example_start =
          Inr (s', e) \<and> upstream_sends e \<noteq> 0"
    by (simp add: handler_unfold)
  then obtain s' e where run: "fut_process_client_query (example_config 2) example_draw ?cq
      example_start = Inr (s', e)" and sent: "upstream_sends e \<noteq> 0"
    by auto
  obtain s'' e'' where fin: "pending_query_completed (query_key (cq_normalized_question ?cq)) [42] s' =
      (s'', e'')"
    by fastforce
  have fin': "pending_query_completed (query_key (example_question 1)) [42] s' = (s'', e'')"
    using fin by simp
  from register_complete_roundtrip [OF h run sent fin] sent
  have "upstream_sends e \<noteq> 0 \<and>
        (case pending_query_completed (query_key (example_question 1)) [42] s' of
          (s'', e'') \<Rightarrow> pending_queries s'' = [] \<and> e'' = [ClientResponse 7 [42]] \<and>
             waiting_clients_count s'' = 0 \<and> inflight_queries s'' = 0)"
    unfolding fin' by (simp add: handler_init_def)
  with h show ?thesis
    unfolding run by simp
qed

end
