(* ===== verification/Handler_Errors.thy ===== *)
theory Handler_Errors
  imports Timers
begin

text \<open>
  The panics of \<open>fut_process_client_query\<close>.  The specification says the core is
  infallible from the listener's perspective (section 7).  The source panics in two places
  a client query can reach from any state: indexing the query's own list of upstream
  servers with a live index of the global list (line 255), and drawing an outbound socket
  from an empty socket vector (\<open>Range::new(0, 0)\<close>, line 537).  The timeout
  continuations panic too: a stale timer retries another query's entry (line 351), and
  a retry indexes its query's list with its new live index (line 386).
\<close>

text \<open>
  Two clients asking the same question with different lists of upstream servers, under
  the P2 mode with room for one waiting client.
\<close>

abbreviation p2_config :: handler_config where
  "p2_config \<equiv> (example_config 1)\<lparr>lbmode := P2\<rparr>"

abbreviation short_query :: client_query where
  "short_query \<equiv> \<lparr>cq_normalized_question = example_question 1, cq_upstream_servers_for_query = [10],
     cq_reply = 7, cq_custom_hash = (0, 0)\<rparr>"

abbreviation long_query :: client_query where
  "long_query \<equiv> \<lparr>cq_normalized_question = example_question 1, cq_upstream_servers_for_query = [10, 11],
     cq_reply = 8, cq_custom_hash = (0, 0)\<rparr>"

text \<open>
  C27: a query whose list of upstream servers is shorter than the first live index
  panics with an index out of bounds in the Fallback mode, once it gets past admission
  control and coalescing; for instance a query with no upstream server at all.
\<close>

theorem process_index_panic:
  assumes "upstream_servers_live st \<noteq> []"
    and "waiting_clients_count st < max_waiting_clients cfg"
    and "map_of (pending_queries st) (query_key (cq_normalized_question cq)) = None"
    and "net_ext_udp_sockets cfg \<noteq> []" and "lbmode cfg = Fallback"
    and "length (cq_upstream_servers_for_query cq) \<le> hd (upstream_servers_live st)"
  shows "fut_process_client_query cfg dr cq st = Inl PanicIndexOutOfBounds"
  using assms
  by (simp add: fut_process_client_query_def cap_pending_queries_def maybe_add_to_existing_pending_query_None
      new_pending_query_def pick_upstream_def hd_conv_nth Let_def split: prod.splits)

theorem process_index_panic_witness:
  "upstream_servers_live example_start \<noteq> [] \<and>
   waiting_clients_count example_start < max_waiting_clients (example_config 2) \<and>
   map_of (pending_queries example_start) (query_key (example_question 1)) = None \<and>
   net_ext_udp_sockets (example_config 2) \<noteq> [] \<and> lbmode (example_config 2) = Fallback \<and>
   length ([] :: addr list) \<le> hd (upstream_servers_live example_start) \<and>
   fut_process_client_query (example_config 2) example_draw
     \<lparr>cq_normalized_question = example_question 1, cq_upstream_servers_for_query = [],
      cq_reply = 7, cq_custom_hash = (0, 0)\<rparr> example_start = Inl PanicIndexOutOfBounds"
proof -
  have h: "upstream_servers_live example_start \<noteq> []"
    "waiting_clients_count example_start < max_waiting_clients (example_config 2)"
    "map_of (pending_queries example_start) (query_key (example_question 1)) = None"
    "length ([] :: addr list) \<le> hd (upstream_servers_live example_start)"
    by (simp_all add: handler_init_def)
  from process_index_panic [where cq = "\<lparr>cq_normalized_question = example_question 1,
      cq_upstream_servers_for_query = [], cq_reply = 7, cq_custom_hash = (0, 0)\<rparr>"
      and cfg = "example_config 2" and dr = example_draw] h show ?thesis
    by simp
qed

text \<open>
  C28: with no outbound socket configured, every query that gets past admission control
  and coalescing while a server is live panics on the empty random range.
\<close>

theorem process_empty_sockets_panic:
  assumes "upstream_servers_live st \<noteq> []"
    and "waiting_clients_count st < max_waiting_clients cfg"
    and "map_of (pending_queries st) (query_key (cq_normalized_question cq)) = None"
    and "net_ext_udp_sockets cfg = []"
  shows "fut_process_client_query cfg dr cq st = Inl PanicEmptyRange"
proof -
  let ?pick = "pick_upstream (cq_normalized_question cq)
      (server_load (upstream_servers st) (cq_upstream_servers_for_query cq))
      (upstream_servers_live st) False (lbmode cfg)"
  have "\<not> (\<exists>e. ?pick = Inl e)"
    using assms(1) by (cases "lbmode cfg") (auto simp: pick_upstream_def Let_def)
  then obtain idx where "?pick = Inr idx"
    by (cases ?pick) auto
  with assms show ?thesis
    by (simp add: fut_process_client_query_def cap_pending_queries_def maybe_add_to_existing_pending_query_None
        new_pending_query_def Let_def)
qed


theorem process_empty_sockets_panic_witness:
  "upstream_servers_live example_start \<noteq> [] \<and>
   waiting_clients_count example_start < max_waiting_clients ((example_config 2)\<lparr>net_ext_udp_sockets := []\<rparr>) \<and>
   map_of (pending_queries example_start) (query_key (example_question 1)) = None \<and>
   net_ext_udp_sockets ((example_config 2)\<lparr>net_ext_udp_sockets := []\<rparr>) = [] \<and>
   fut_process_client_query ((example_config 2)\<lparr>net_ext_udp_sockets := []\<rparr>) example_draw
     (example_query 1 7) example_start = Inl PanicEmptyRange"
proof -
  have h: "upstream_servers_live example_start \<noteq> []"
    "waiting_clients_count example_start < max_waiting_clients ((example_config 2)\<lparr>net_ext_udp_sockets := []\<rparr>)"
    "map_of (pending_queries example_start) (query_key (example_question 1)) = None"
    "net_ext_udp_sockets ((example_config 2)\<lparr>net_ext_udp_sockets := []\<rparr>) = []"
    by (simp_all add: handler_init_def)
  from process_empty_sockets_panic [where cq = "example_query 1 7"
      and cfg = "(example_config 2)\<lparr>net_ext_udp_sockets := []\<rparr>" and dr = example_draw] h
  show ?thesis
    by simp
qed


text \<open>
  C29: a stale timer panics.  The first query registers on server 10, the index 0 of its
  one-server list.  The second query for the same key evicts it and registers on
  server 11, the index 1 of its own list, because P2 sees server 10 busy.  The evicted
  query's first-attempt timer is still armed, with the first query's list: when it
  fires, the retry finds the second query's entry under the key and indexes the
  one-server list with index 1 (line 351), a reachable panic.
\<close>

theorem stale_timer_index_panic:
  "case run_events p2_config [ClientQueryArrives example_draw short_query,
      ClientQueryArrives example_draw long_query] example_start of
     None \<Rightarrow> False
   | Some (s, e) \<Rightarrow> reachable p2_config s \<and>
       FirstAttempt 0 10 (example_question 1) [10] \<in> set (timers s) \<and>
       attempt_timer_fires p2_config example_draw (FirstAttempt 0 10 (example_question 1) [10]) s =
         Inl PanicIndexOutOfBounds"
proof -
  let ?evs = "[ClientQueryArrives example_draw short_query, ClientQueryArrives example_draw long_query]"
  have "\<exists>s e. run_events p2_config ?evs example_start = Some (s, e) \<and>
          FirstAttempt 0 10 (example_question 1) [10] \<in> set (timers s) \<and>
          attempt_timer_fires p2_config example_draw (FirstAttempt 0 10 (example_question 1) [10]) s =
            Inl PanicIndexOutOfBounds"
    by (simp add: handler_unfold pending_query_new_def busy_map_def saturating_add_def saturating_sub_def)
  then obtain s e where run: "run_events p2_config ?evs example_start = Some (s, e)"
    and rest: "FirstAttempt 0 10 (example_question 1) [10] \<in> set (timers s) \<and>
          attempt_timer_fires p2_config example_draw (FirstAttempt 0 10 (example_question 1) [10]) s =
            Inl PanicIndexOutOfBounds"
    by auto
  have "reachable p2_config s"
    using reachable.init run by (rule run_events_reachable)
  with rest show ?thesis
    unfolding run by simp
qed

text \<open>
  C32: the retry panics on the index of its new choice (line 386).  The timeout
  continuation indexes the query's own list of upstream servers with the index
  \<open>new_pending_query\<close> picks among the live indices of the global list; in the Fallback
  mode that is the first live index, and when the list is not longer than it the
  retry panics, even though the first attempt's index was in range.
\<close>

theorem retry_index_panic:
  assumes "map_of (pending_queries st) (query_key nq) = Some pq"
    and "upstream_server_idx pq < length ups"
    and "upstream_servers st (ups ! upstream_server_idx pq) \<noteq> None"
    and "upstream_servers_live st \<noteq> []"
    and "net_ext_udp_sockets cfg \<noteq> []" and "lbmode cfg = Fallback"
    and "length ups \<le> hd (upstream_servers_live st)"
  shows "fut_retry_query cfg dr nq ups st = Inl PanicIndexOutOfBounds"
  using assms
  by (auto simp: fut_retry_query_def new_pending_query_def pick_upstream_def hd_conv_nth Let_def)

text \<open>
  The panic is reachable: a query with the one-server list \<open>[10]\<close> registers on index 0;
  the health logic then makes index 1 the only live index; when the first timer fires,
  the retry picks index 1 and indexes the one-server list with it.
\<close>

theorem retry_index_panic_witness:
  "case run_events (example_config 2) [ClientQueryArrives example_draw short_query, LiveSetChanges [1]]
      example_start of
     None \<Rightarrow> False
   | Some (s, e) \<Rightarrow> reachable (example_config 2) s \<and>
       FirstAttempt 0 10 (example_question 1) [10] \<in> set (timers s) \<and>
       attempt_timer_fires (example_config 2) example_draw (FirstAttempt 0 10 (example_question 1) [10]) s =
         Inl PanicIndexOutOfBounds"
proof -
  let ?evs = "[ClientQueryArrives example_draw short_query, LiveSetChanges [1]]"
  let ?t = "FirstAttempt 0 10 (example_question 1) [10]"
  let ?st1 = "\<lambda>s. s\<lparr>timers := remove1 ?t (timers s),
                     upstream_servers := charge_timeout 3 10 (upstream_servers s)\<rparr>"
  have "\<exists>s e. run_events (example_config 2) ?evs example_start = Some (s, e) \<and> ?t \<in> set (timers s) \<and>
          (\<exists>pq. map_of (pending_queries (?st1 s)) (query_key (example_question 1)) = Some pq \<and>
             upstream_server_idx pq < length [10::addr] \<and>
             upstream_servers (?st1 s) ([10] ! upstream_server_idx pq) \<noteq> None) \<and>
          upstream_servers_live (?st1 s) \<noteq> [] \<and>
          length [10::addr] \<le> hd (upstream_servers_live (?st1 s))"
    by (simp add: handler_unfold pending_query_new_def charge_timeout_def)
  then obtain s e pq where run: "run_events (example_config 2) ?evs example_start = Some (s, e)"
    and mem: "?t \<in> set (timers s)"
    and h: "map_of (pending_queries (?st1 s)) (query_key (example_question 1)) = Some pq"
      "upstream_server_idx pq < length [10::addr]"
      "upstream_servers (?st1 s) ([10] ! upstream_server_idx pq) \<noteq> None"
      "upstream_servers_live (?st1 s) \<noteq> []"
      "length [10::addr] \<le> hd (upstream_servers_live (?st1 s))"
    by blast
  have "fut_retry_query (example_config 2) example_draw (example_question 1) [10] (?st1 s) =
          Inl PanicIndexOutOfBounds"
    by (rule retry_index_panic [OF h(1-4) _ _ h(5)]) simp_all
  then have "attempt_timer_fires (example_config 2) example_draw ?t s = Inl PanicIndexOutOfBounds"
    by (simp add: attempt_timer_fires_def first_attempt_timeout_retry)
  moreover have "reachable (example_config 2) s"
    using reachable.init run by (rule run_events_reachable)
  ultimately show ?thesis
    using mem unfolding run by simp
qed

end
