(* ===== verification/Eviction_Free.thy ===== *)
theory Eviction_Free
  imports Timers
begin

text \<open>
  Runs in which admission control never evicts: every client query arrives while fewer
  clients than \<open>max_waiting_clients\<close> wait.  In such runs every armed timer belongs to
  the current pending query of its key, whose \<open>done_tx\<close> is the timer's channel, so a
  first-attempt timer retries only the attempt that armed it.  Eviction breaks this:
  the evicted query's timer stays armed and retries whatever entry the key has next
  (C7, C29).
\<close>

text \<open>The key a timer's continuation looks up: the question's key, or the key it captured.\<close>

primrec timer_key :: "attempt_timer \<Rightarrow> pending_query_key" where
  "timer_key (FirstAttempt tx a nq ups) = query_key nq"
| "timer_key (RetryAttempt tx key a) = key"

inductive reachable_without_eviction :: "handler_config \<Rightarrow> handler_state \<Rightarrow> bool" for cfg where
  init: "reachable_without_eviction cfg (handler_init servers live)"
| step: "reachable_without_eviction cfg s \<Longrightarrow> handler_event_step cfg ev s = Some (s', e) \<Longrightarrow>
    (is_client_event ev \<longrightarrow> waiting_clients_count s < max_waiting_clients cfg) \<Longrightarrow>
    reachable_without_eviction cfg s'"

text \<open>Every armed timer belongs to the pending query of its key.\<close>

definition timers_owned :: "attempt_timer list \<Rightarrow> pending_queries \<Rightarrow> bool" where
  "timers_owned tms pqs \<longleftrightarrow>
     (\<forall>t\<in>set tms. \<exists>pq. map_of pqs (timer_key t) = Some pq \<and> done_tx pq = timer_channel t)"

lemmas timers_ownedI = timers_owned_def [THEN iffD2, rule_format]
lemmas timers_ownedD = timers_owned_def [THEN iffD1, rule_format]

lemma reachable_without_eviction_reachable:
  "reachable_without_eviction cfg s \<Longrightarrow> reachable cfg s"
proof (induction rule: reachable_without_eviction.induct)
  case (init servers live)
  show ?case by (rule reachable.init)
next
  case (step s ev s' e)
  then show ?case by (blast intro: reachable.step handler_event_step_sound)
qed

lemma timers_owned_sub:
  "timers_owned tms pqs \<Longrightarrow> set tms' \<subseteq> set tms \<Longrightarrow> timers_owned tms' pqs"
  by (auto simp: timers_owned_def)

lemma timers_owned_update:
  assumes "timers_owned tms pqs"
    and "\<And>t. t \<in> set tms \<Longrightarrow> timer_key t = k \<Longrightarrow> timer_channel t = done_tx v"
  shows "timers_owned tms (AList.update k v pqs)"
  using assms by (fastforce simp: timers_owned_def update_conv')

lemma timers_owned_delete:
  assumes own: "timers_owned tms pqs" and pq: "map_of pqs k = Some pq"
  shows "timers_owned (filter (\<lambda>t. timer_channel t \<noteq> done_tx pq) tms) (AList.delete k pqs)"
proof (rule timers_ownedI)
  fix t assume t: "t \<in> set (filter (\<lambda>t. timer_channel t \<noteq> done_tx pq) tms)"
  then obtain pq' where pq': "map_of pqs (timer_key t) = Some pq'" "done_tx pq' = timer_channel t"
    using own by (auto dest: timers_ownedD)
  have "timer_key t \<noteq> k"
    using t pq pq' by auto
  with pq' show "\<exists>pq. map_of (AList.delete k pqs) (timer_key t) = Some pq \<and> done_tx pq = timer_channel t"
    by (simp add: delete_conv')
qed

text \<open>Owned timers with distinct channels have distinct keys: at most one timer per entry.\<close>

lemma distinct_map_by_key:
  assumes "distinct (map f xs)"
    and fg: "\<And>x y. x \<in> set xs \<Longrightarrow> y \<in> set xs \<Longrightarrow> g x = g y \<Longrightarrow> f x = f y"
  shows "distinct (map g xs)"
proof -
  have d: "distinct xs" and inj: "inj_on f (set xs)"
    using assms(1) by (simp_all add: distinct_map)
  have "inj_on g (set xs)"
  proof (rule inj_onI)
    fix x y assume x: "x \<in> set xs" and y: "y \<in> set xs" and "g x = g y"
    then have "f x = f y" by (rule fg)
    from inj_onD [OF inj this x y] show "x = y" .
  qed
  with d show ?thesis by (simp add: distinct_map)
qed

lemma timers_owned_length:
  assumes own: "timers_owned tms pqs" and dist: "distinct (map timer_channel tms)"
  shows "length tms \<le> length pqs"
proof -
  have dk: "distinct (map timer_key tms)"
    using dist
  proof (rule distinct_map_by_key)
    fix x y assume xy: "x \<in> set tms" "y \<in> set tms" "timer_key x = timer_key y"
    obtain px where "map_of pqs (timer_key x) = Some px" "done_tx px = timer_channel x"
      using own xy(1) by (blast dest: timers_ownedD)
    moreover obtain py where "map_of pqs (timer_key y) = Some py" "done_tx py = timer_channel y"
      using own xy(2) by (blast dest: timers_ownedD)
    ultimately show "timer_channel x = timer_channel y"
      using xy(3) by simp
  qed
  have "timer_key ` set tms \<subseteq> fst ` set pqs"
  proof
    fix x assume "x \<in> timer_key ` set tms"
    then obtain t where t: "t \<in> set tms" "x = timer_key t" by blast
    then obtain pq where "map_of pqs x = Some pq"
      using own by (blast dest: timers_ownedD)
    then have "(x, pq) \<in> set pqs" by (rule map_of_SomeD)
    then show "x \<in> fst ` set pqs" by force
  qed
  then have "card (timer_key ` set tms) \<le> card (fst ` set pqs)"
    by (simp add: card_mono)
  also have "\<dots> \<le> length pqs"
    using card_image_le [of "set pqs" fst] card_length [of pqs] by simp
  finally have "card (timer_key ` set tms) \<le> length pqs" .
  moreover have "length tms = card (timer_key ` set tms)"
    using distinct_card [OF dk] by simp
  ultimately show ?thesis by simp
qed


lemma remove1_other_channel:
  assumes "distinct (map timer_channel tms)" and "t \<in> set tms" and "t' \<in> set (remove1 t tms)"
  shows "timer_channel t' \<noteq> timer_channel t"
proof -
  have "remove1 t tms = filter (\<lambda>x. t \<noteq> x) tms"
    using assms(1) by (rule distinct_map_remove1_filter)
  then have "t' \<noteq> t" "t' \<in> set tms"
    using assms(3) by auto
  moreover have "inj_on timer_channel (set tms)"
    using assms(1) by (simp add: distinct_map)
  ultimately show ?thesis
    using assms(2) by (auto dest: inj_onD)
qed

lemma cap_pending_queries_room:
  "cap_pending_queries m t = Inr (b, t') \<Longrightarrow> waiting_clients_count t < m \<Longrightarrow> t' = t"
  by (simp add: cap_pending_queries_def)

text \<open>A client query that does not evict keeps the timers owned.\<close>

lemma process_owned:
  assumes run: "fut_process_client_query cfg dr cq st = Inr (st', effects)"
    and room: "waiting_clients_count st < max_waiting_clients cfg"
    and own: "timers_owned (timers st) (pending_queries st)"
  shows "timers_owned (timers st') (pending_queries st')"
  using run
proof (cases rule: fut_process_client_query_InrE)
  case (all_down n)
  with own show ?thesis by simp
next
  case (attached b st1)
  then have st1: "st1 = st" using room by (simp add: cap_pending_queries_room)
  obtain pq where pq: "map_of (pending_queries st) (query_key (cq_normalized_question cq)) = Some pq"
    and st': "st' = st\<lparr>pending_queries := AList.update (query_key (cq_normalized_question cq))
               (pq\<lparr>client_queries := client_queries pq @ [cq]\<rparr>) (pending_queries st),
               waiting_clients_count := waiting_clients_count st + 1\<rparr>"
    using attached(3) st1 by (auto simp: maybe_add_to_existing_pending_query_def split: option.splits)
  have "timers_owned (timers st) (AList.update (query_key (cq_normalized_question cq))
          (pq\<lparr>client_queries := client_queries pq @ [cq]\<rparr>) (pending_queries st))"
    using own pq by (intro timers_owned_update) (auto dest: timers_ownedD)
  with st' show ?thesis by simp
next
  case (dropped b st1)
  then have "st1 = st" using room by (simp add: cap_pending_queries_room)
  with dropped own show ?thesis by simp
next
  case (registered b st1 nqm idx port probe peff us)
  then have st1: "st1 = st" using room by (simp add: cap_pending_queries_room)
  let ?k = "query_key (cq_normalized_question cq)"
  let ?pq = "(pending_query_new nqm idx port cq (next_channel st) (now st))\<lparr>probed_socket_addr := probe\<rparr>"
  have absent: "map_of (pending_queries st) ?k = None"
    using registered(3) st1 by simp
  have "timers_owned (timers st) (AList.update ?k ?pq (pending_queries st))"
    using own absent by (intro timers_owned_update) (auto dest: timers_ownedD)
  moreover have "map_of (AList.update ?k ?pq (pending_queries st)) ?k = Some ?pq"
    by (simp add: update_conv')
  ultimately show ?thesis
    using registered(8) st1 by (auto simp: timers_owned_def pending_query_new_def)
qed

text \<open>
  A first-attempt timer retries its own entry: the only timer of its key, so the entry
  rewritten with the new channel owns the new retry timer.
\<close>

lemma first_attempt_owned:
  assumes run: "first_attempt_timeout cfg dr a nq ups (st\<lparr>timers := remove1 t (timers st)\<rparr>) = Inr (st', effects)"
    and t: "t = FirstAttempt c a nq ups" "t \<in> set (timers st)"
    and own: "timers_owned (timers st) (pending_queries st)"
    and dist: "distinct (map timer_channel (timers st))"
  shows "timers_owned (timers st') (pending_queries st')"
proof -
  let ?st1 = "st\<lparr>timers := remove1 t (timers st),
     upstream_servers := charge_timeout (upstream_max_failures cfg) a (upstream_servers st)\<rparr>"
  have own1: "timers_owned (remove1 t (timers st)) (pending_queries st)"
    using own by (rule timers_owned_sub) (meson set_remove1_subset)
  have "fut_retry_query cfg dr nq ups ?st1 = Inr (st', effects)"
    using run by (simp add: first_attempt_timeout_retry)
  then show ?thesis
  proof (cases rule: fut_retry_query_InrE)
    case unchanged
    with own1 show ?thesis by simp
  next
    case (retried pq nqm idx port us)
    obtain pq0 where pq0: "map_of (pending_queries st) (query_key nq) = Some pq0" "done_tx pq0 = c"
      using own t by (auto dest: timers_ownedD)
    let ?pq = "pq\<lparr>normalized_question_minimal := nqm, local_port := port, ts := now st,
                  upstream_server_idx := idx, done_tx := next_channel st\<rparr>"
    have "timers_owned (remove1 t (timers st)) (AList.update (query_key nq) ?pq (pending_queries st))"
    proof (rule timers_owned_update [OF own1])
      fix t' assume t': "t' \<in> set (remove1 t (timers st))" and k: "timer_key t' = query_key nq"
      have "timer_channel t' \<noteq> c"
        using remove1_other_channel [OF dist t(2) t'] t(1) by simp
      moreover have "timer_channel t' = c"
        using own1 t' k pq0 by (auto dest: timers_ownedD)
      ultimately show "timer_channel t' = done_tx ?pq" by simp
    qed
    moreover have "map_of (AList.update (query_key nq) ?pq (pending_queries st)) (query_key nq) = Some ?pq"
      by (simp add: update_conv')
    ultimately show ?thesis
      using retried(7) by (auto simp: timers_owned_def)
  qed
qed

lemma retry_attempt_owned:
  assumes run: "retry_attempt_timeout cfg key a st = (st', effects)"
    and own: "timers_owned (timers st) (pending_queries st)"
  shows "timers_owned (timers st') (pending_queries st')"
  using run
proof (cases rule: retry_attempt_timeout_E)
  case (degraded pq n)
  with own show ?thesis by (simp add: timers_owned_delete)
qed (use own in simp_all)

lemma pending_query_completed_owned:
  assumes run: "pending_query_completed key packet st = (st', effects)"
    and own: "timers_owned (timers st) (pending_queries st)"
  shows "timers_owned (timers st') (pending_queries st')"
proof (cases "map_of (pending_queries st) key")
  case None
  with run own show ?thesis by (simp add: pending_query_completed_def)
next
  case (Some pq)
  with run own show ?thesis by (auto simp: pending_query_completed_def timers_owned_delete)
qed

text \<open>Every step that does not evict keeps the armed timers owned.\<close>

lemma event_step_owned:
  assumes step: "handler_event_step cfg ev s = Some (s', e)"
    and calm: "is_client_event ev \<longrightarrow> waiting_clients_count s < max_waiting_clients cfg"
    and own: "timers_owned (timers s) (pending_queries s)"
    and dist: "distinct (map timer_channel (timers s))"
  shows "timers_owned (timers s') (pending_queries s')"
proof (cases ev)
  case (ClientQueryArrives dr cq)
  with step have "fut_process_client_query cfg dr cq s = Inr (s', e)"
    by (auto split: sum.splits)
  with ClientQueryArrives calm own show ?thesis by (auto intro: process_owned)
next
  case (TimerFires dr t)
  with step have mem: "t \<in> set (timers s)" and run: "attempt_timer_fires cfg dr t s = Inr (s', e)"
    by (auto split: if_splits sum.splits)
  have own1: "timers_owned (remove1 t (timers s)) (pending_queries s)"
    using own by (rule timers_owned_sub) (meson set_remove1_subset)
  show ?thesis
  proof (cases t)
    case (FirstAttempt c a nq ups)
    with run have "first_attempt_timeout cfg dr a nq ups (s\<lparr>timers := remove1 t (timers s)\<rparr>) = Inr (s', e)"
      by (simp add: attempt_timer_fires_def)
    from first_attempt_owned [OF this FirstAttempt mem own dist] show ?thesis .
  next
    case (RetryAttempt c key a)
    with run have "retry_attempt_timeout cfg key a (s\<lparr>timers := remove1 t (timers s)\<rparr>) = (s', e)"
      by (simp add: attempt_timer_fires_def)
    with own1 show ?thesis by (auto dest: retry_attempt_owned)
  qed
next
  case (ResponseArrives key packet)
  with step own show ?thesis by (auto intro: pending_query_completed_owned)
qed (use step own in auto)

lemma reachable_without_eviction_owned:
  "reachable_without_eviction cfg s \<Longrightarrow> timers_owned (timers s) (pending_queries s)"
proof (induction rule: reachable_without_eviction.induct)
  case (init servers live)
  show ?case by (simp add: handler_init_def timers_owned_def)
next
  case (step s ev s' e)
  have "distinct (map timer_channel (timers s))"
    using reachable_channels_ok [OF reachable_without_eviction_reachable [OF step.hyps(1)]]
    by (simp add: channels_ok_def)
  with step show ?case by (blast intro: event_step_owned)
qed

lemma first_attempts_le_length: "first_attempts tms \<le> length tms"
  by (induction tms) (simp_all add: first_attempts_def)

lemma reachable_without_eviction_timers_le:
  assumes "reachable_without_eviction cfg s"
  shows "first_attempts (timers s) \<le> length (pending_queries s)"
proof -
  have "distinct (map timer_channel (timers s))"
    using reachable_channels_ok [OF reachable_without_eviction_reachable [OF assms]]
    by (simp add: channels_ok_def)
  with reachable_without_eviction_owned [OF assms] have "length (timers s) \<le> length (pending_queries s)"
    by (rule timers_owned_length)
  with first_attempts_le_length show ?thesis by (rule le_trans)
qed

text \<open>
  C30: in a run without eviction, every armed timer belongs to the pending query its
  continuation will look up: the entry of the timer's key exists and its \<open>done_tx\<close> is
  the timer's channel.  A first-attempt timer therefore retries the attempt that armed
  it and no other (contrast C29, where an evicted query's timer retries its successor).
\<close>

theorem armed_timer_owned:
  assumes "reachable_without_eviction cfg s" and "t \<in> set (timers s)"
  shows "\<exists>pq. map_of (pending_queries s) (timer_key t) = Some pq \<and> done_tx pq = timer_channel t"
  using reachable_without_eviction_owned [OF assms(1)] assms(2) by (rule timers_ownedD)

theorem armed_timer_owned_witness:
  "case handler_event_step (example_config 2) (ClientQueryArrives example_draw (example_query 1 7))
      example_start of
     None \<Rightarrow> False
   | Some (s, e) \<Rightarrow> reachable_without_eviction (example_config 2) s \<and>
       FirstAttempt 0 10 (example_question 1) [10, 11] \<in> set (timers s) \<and>
       (\<exists>pq. map_of (pending_queries s) (example_key 1) = Some pq \<and> done_tx pq = 0)"
proof -
  let ?ev = "ClientQueryArrives example_draw (example_query 1 7)"
  have "\<exists>s e. handler_event_step (example_config 2) ?ev example_start = Some (s, e) \<and>
          timers s = [FirstAttempt 0 10 (example_question 1) [10, 11]]"
    by (simp add: handler_unfold)
  then obtain s e where run: "handler_event_step (example_config 2) ?ev example_start = Some (s, e)"
    and tm: "timers s = [FirstAttempt 0 10 (example_question 1) [10, 11]]"
    by auto
  have reach: "reachable_without_eviction (example_config 2) s"
    using reachable_without_eviction.init run
    by (rule reachable_without_eviction.step) (simp add: handler_init_def)
  have "FirstAttempt 0 10 (example_question 1) [10, 11] \<in> set (timers s)"
    using tm by simp
  from armed_timer_owned [OF reach this] reach tm show ?thesis
    unfolding run by (simp add: query_key_def)
qed

text \<open>
  C31: in a run without eviction, the timers armed at any moment cause at most one more
  upstream send per pending query: every run of timer firings from such a state sends
  at most as many queries as there are pending queries.  After an eviction this fails:
  the evicted query's first timer and its successor's both retry the one entry (C7).
\<close>

theorem timer_sends_per_pending:
  assumes "reachable_without_eviction cfg s" and "list_all is_timer_event evs"
    and "run_events cfg evs s = Some (s', e)"
  shows "upstream_sends e \<le> length (pending_queries s)"
proof -
  have "filter is_client_event evs = []"
    using assms(2) timer_event_not_client by (auto simp: list_all_iff filter_empty_conv)
  with run_events_accounting [OF assms(3)] have "upstream_sends e \<le> first_attempts (timers s)"
    by simp
  also have "\<dots> \<le> length (pending_queries s)"
    using assms(1) by (rule reachable_without_eviction_timers_le)
  finally show ?thesis .
qed

theorem timer_sends_per_pending_witness:
  "case handler_event_step (example_config 2) (ClientQueryArrives example_draw (example_query 1 7))
      example_start of
     None \<Rightarrow> False
   | Some (s, e) \<Rightarrow>
       (case run_events (example_config 2)
          [TimerFires example_draw (FirstAttempt 0 10 (example_question 1) [10, 11])] s of
         None \<Rightarrow> False
       | Some (s', e') \<Rightarrow> upstream_sends e' = 1 \<and> upstream_sends e' \<le> length (pending_queries s))"
proof -
  let ?ev = "ClientQueryArrives example_draw (example_query 1 7)"
  let ?evs = "[TimerFires example_draw (FirstAttempt 0 10 (example_question 1) [10, 11])]"
  have "\<exists>s e. handler_event_step (example_config 2) ?ev example_start = Some (s, e) \<and>
          (\<exists>s' e'. run_events (example_config 2) ?evs s = Some (s', e') \<and> upstream_sends e' = 1)"
    by (simp add: handler_unfold pending_query_new_def)
  then obtain s e s' e' where run: "handler_event_step (example_config 2) ?ev example_start = Some (s, e)"
    and run': "run_events (example_config 2) ?evs s = Some (s', e')" and sends: "upstream_sends e' = 1"
    by auto
  have reach: "reachable_without_eviction (example_config 2) s"
    using reachable_without_eviction.init run
    by (rule reachable_without_eviction.step) (simp add: handler_init_def)
  have "list_all is_timer_event ?evs" by simp
  from timer_sends_per_pending [OF reach this run'] sends
  have "case run_events (example_config 2) ?evs s of
          None \<Rightarrow> False
        | Some (s', e') \<Rightarrow> upstream_sends e' = 1 \<and> upstream_sends e' \<le> length (pending_queries s)"
    unfolding run' by simp
  then show ?thesis
    unfolding run by (simp only: option.case prod.case)
qed

end
