(* ===== verification/Gauge.thy ===== *)
theory Gauge
  imports Timers
begin

text \<open>
  The \<open>inflight_queries\<close> gauge of \<open>varz\<close>.  The handler increments it when it
  registers a pending query (line 283) and decrements it when it removes one: on an
  eviction in \<open>cap_pending_queries\<close> (line 124), when the retry's timer degrades the
  entry (line 459), and when a response completes it.  The retry updates its entry in
  place and leaves the gauge alone.  So the gauge counts the pending queries in every
  reachable state, evictions included; the proof is one lemma per operation and a rule
  induction, and it needs the distinct keys of \<open>table_inv\<close>, without which removing
  a key could remove more than one entry.
\<close>

definition gauge_ok :: "'a pending_table_scheme \<Rightarrow> bool" where
  "gauge_ok t \<longleftrightarrow> inflight_queries t = int (length (pending_queries t))"

subsection \<open>Lengths of association lists\<close>

lemma length_update_None: "map_of xs k = None \<Longrightarrow> length (AList.update k v xs) = Suc (length xs)"
  by (induction xs) auto

lemma length_update_Some: "map_of xs k = Some w \<Longrightarrow> length (AList.update k v xs) = length xs"
  by (induction xs) (auto split: if_splits)

lemma length_delete_Some:
  "distinct (map fst xs) \<Longrightarrow> map_of xs k = Some w \<Longrightarrow> Suc (length (AList.delete k xs)) = length xs"
proof (induction xs)
  case Nil
  then show ?case by simp
next
  case (Cons p xs)
  show ?case
  proof (cases "fst p = k")
    case True
    with Cons.prems(1) have "AList.delete k xs = xs"
      by (auto intro: delete_id)
    with True show ?thesis by simp
  next
    case False
    with Cons show ?thesis by (auto split: if_splits)
  qed
qed

subsection \<open>One lemma per operation\<close>

lemma cap_pending_queries_gauge:
  assumes run: "cap_pending_queries m t = Inr (b, t')"
    and dist: "distinct (map fst (pending_queries t))" and ok: "gauge_ok t"
  shows "gauge_ok t'"
proof (cases "waiting_clients_count t < m \<or> pending_queries t = []")
  case True
  with run ok show ?thesis
    by (auto simp: cap_pending_queries_def split: list.splits)
next
  case False
  then obtain k pq ps where pqs: "pending_queries t = (k, pq) # ps"
    by (cases "pending_queries t") auto
  then have "map_of (pending_queries t) k = Some pq" by simp
  from length_delete_Some [OF dist this] have "int (length (AList.delete k (pending_queries t))) =
      int (length (pending_queries t)) - 1"
    by simp
  with run ok False pqs show ?thesis
    by (auto simp: cap_pending_queries_def gauge_ok_def Let_def split: if_splits)
qed

lemma maybe_add_gauge:
  assumes "maybe_add_to_existing_pending_query key cq t = (b, t')" and "gauge_ok t"
  shows "gauge_ok t'"
  using assms
  by (auto simp: maybe_add_to_existing_pending_query_def gauge_ok_def length_update_Some
      split: option.splits)

lemma process_gauge:
  assumes run: "fut_process_client_query cfg dr cq st = Inr (st', effects)"
    and dist: "distinct (map fst (pending_queries st))" and ok: "gauge_ok st"
  shows "gauge_ok st'"
  using run
proof (cases rule: fut_process_client_query_InrE)
  case (all_down n)
  with ok show ?thesis by (simp add: gauge_ok_def)
next
  case (attached b st1)
  then show ?thesis
    using cap_pending_queries_gauge [OF attached(2) dist ok] by (blast intro: maybe_add_gauge)
next
  case (dropped b st1)
  with cap_pending_queries_gauge [OF dropped(2) dist ok] show ?thesis by simp
next
  case (registered b st1 nqm idx port probe peff us)
  with cap_pending_queries_gauge [OF registered(2) dist ok] show ?thesis
    by (simp add: gauge_ok_def length_update_None)
qed

lemma retry_gauge:
  assumes "fut_retry_query cfg dr nq ups st = Inr (st', effects)" and ok: "gauge_ok st"
  shows "gauge_ok st'"
  using assms(1)
proof (cases rule: fut_retry_query_InrE)
  case unchanged
  with ok show ?thesis by simp
next
  case (retried pq nqm idx port us)
  with ok show ?thesis by (simp add: gauge_ok_def length_update_Some)
qed

lemma retry_attempt_timeout_gauge:
  assumes run: "retry_attempt_timeout cfg key a st = (st', effects)"
    and dist: "distinct (map fst (pending_queries st))" and ok: "gauge_ok st"
  shows "gauge_ok st'"
  using run
proof (cases rule: retry_attempt_timeout_E)
  case (degraded pq n)
  with length_delete_Some [OF dist degraded(2)] ok show ?thesis
    by (simp add: gauge_ok_def)
qed (use ok in \<open>simp_all add: gauge_ok_def\<close>)

lemma pending_query_completed_gauge:
  assumes run: "pending_query_completed key packet st = (st', effects)"
    and dist: "distinct (map fst (pending_queries st))" and ok: "gauge_ok st"
  shows "gauge_ok st'"
proof (cases "map_of (pending_queries st) key")
  case None
  with run ok show ?thesis by (simp add: pending_query_completed_def)
next
  case (Some pq)
  with length_delete_Some [OF dist Some] run ok show ?thesis
    by (auto simp: pending_query_completed_def gauge_ok_def)
qed

lemma event_step_gauge:
  assumes step: "handler_event_step cfg ev s = Some (s', e)"
    and dist: "distinct (map fst (pending_queries s))" and ok: "gauge_ok s"
  shows "gauge_ok s'"
proof (cases ev)
  case (ClientQueryArrives dr cq)
  with step have "fut_process_client_query cfg dr cq s = Inr (s', e)"
    by (auto split: sum.splits)
  then show ?thesis using dist ok by (rule process_gauge)
next
  case (TimerFires dr t)
  with step have run: "attempt_timer_fires cfg dr t s = Inr (s', e)"
    by (auto split: if_splits sum.splits)
  have ok1: "gauge_ok (s\<lparr>timers := remove1 t (timers s)\<rparr>)"
    using ok by (simp add: gauge_ok_def)
  show ?thesis
  proof (cases t)
    case (FirstAttempt c a nq ups)
    with run have "fut_retry_query cfg dr nq ups (s\<lparr>timers := remove1 t (timers s),
        upstream_servers := charge_timeout (upstream_max_failures cfg) a (upstream_servers s)\<rparr>) = Inr (s', e)"
      by (simp add: attempt_timer_fires_def first_attempt_timeout_retry)
    then show ?thesis
      by (rule retry_gauge) (use ok in \<open>simp add: gauge_ok_def\<close>)
  next
    case (RetryAttempt c key a)
    with run have "retry_attempt_timeout cfg key a (s\<lparr>timers := remove1 t (timers s)\<rparr>) = (s', e)"
      by (simp add: attempt_timer_fires_def)
    then show ?thesis
      by (rule retry_attempt_timeout_gauge) (use dist ok1 in simp_all)
  qed
next
  case (ResponseArrives key packet)
  with step dist ok show ?thesis by (auto intro: pending_query_completed_gauge)
qed (use step ok in \<open>auto simp: gauge_ok_def\<close>)

lemma reachable_gauge_ok: "reachable cfg s \<Longrightarrow> gauge_ok s"
proof (induction rule: reachable.induct)
  case (init servers live)
  show ?case by (simp add: handler_init_def gauge_ok_def)
next
  case (step s effects s')
  obtain ev where "handler_event_step cfg ev s = Some (s', effects)"
    using step.hyps(2) handler_event_step_complete by blast
  moreover have "distinct (map fst (pending_queries s))"
    using reachable_table_inv [OF step.hyps(1)] by (simp add: table_inv_def)
  ultimately show ?case using step.IH by (rule event_step_gauge)
qed

text \<open>
  C24: in every reachable state the \<open>inflight_queries\<close> gauge equals the number of
  pending queries, so it never goes negative and returns to 0 exactly when the table is
  empty (scenario 1 of the specification), also after evictions.
\<close>

theorem reachable_inflight_gauge:
  assumes "reachable cfg s"
  shows "inflight_queries s = int (length (pending_queries s))"
  using reachable_gauge_ok [OF assms] by (simp add: gauge_ok_def)

theorem reachable_inflight_gauge_witness:
  "case run_events (example_config 2)
      [ClientQueryArrives example_draw (example_query 1 7),
       ClientQueryArrives example_draw (example_query 2 8),
       ClientQueryArrives example_draw (example_query 3 9)] example_start of
     None \<Rightarrow> False
   | Some (s, e) \<Rightarrow> reachable (example_config 2) s \<and> inflight_queries s = 2 \<and>
       inflight_queries s = int (length (pending_queries s))"
proof -
  let ?evs = "[ClientQueryArrives example_draw (example_query 1 7),
       ClientQueryArrives example_draw (example_query 2 8),
       ClientQueryArrives example_draw (example_query 3 9)]"
  have "\<exists>s e. run_events (example_config 2) ?evs example_start = Some (s, e) \<and> inflight_queries s = 2"
    by (simp add: handler_unfold pending_query_new_def)
  then obtain s e where run: "run_events (example_config 2) ?evs example_start = Some (s, e)"
    and g: "inflight_queries s = 2"
    by auto
  have reach: "reachable (example_config 2) s"
    using reachable.init run by (rule run_events_reachable)
  from reachable_inflight_gauge [OF reach] reach g show ?thesis
    unfolding run by simp
qed

end
