(* ===== verification/Spec2Isabelle.thy ===== *)
theory Spec2Isabelle
  imports Abstract_Table Handler_Errors Eviction_Free Gauge
begin

text \<open>
  \<^bold>\<open>A verification development for the client-query core of edgedns.\<close>

  \<^bold>\<open>The program.\<close>  \<open>src/src/edgedns/libedgedns/src/client_queries_handler.rs\<close> is
  the entry point of the resolver: \<open>ClientQueriesHandler::fut_process_client_query\<close>
  receives a normalised client query, answers it from the stale cache (or with
  SERVFAIL) when no upstream server is live, evicts the first pending query when
  \<open>max_waiting_clients\<close> clients wait (\<open>cap_pending_queries\<close>), attaches the client
  to a pending query with the same key (\<open>maybe_add_to_existing_pending_query\<close>), and
  otherwise chooses an upstream (\<open>NormalizedQuestion::pick_upstream\<close> under the
  Fallback, Uniform (jump hash) or P2 mode, called from \<open>new_pending_query\<close>), probes
  a server (\<open>maybe_send_probe_to_offline_servers\<close>), registers a \<open>PendingQuery\<close>
  (\<open>pending_query.rs\<close>), sends the query and arms a timer.  When the timer fires
  the server is charged a failure and the query is retried once
  (\<open>fut_retry_query\<close>); when the retry's timer fires, every attached client is
  answered from the stale cache or with SERVFAIL
  (\<open>maybe_respond_to_all_clients_with_stale_entry\<close>) and the entry is removed.  The
  response pipeline that completes a pending query, the cache, the DNS codec, the
  registry's health logic and the listeners are outside these files.

  \<^bold>\<open>The theories.\<close>
  \<^item> \<open>Prelude\<close>: machine types (\<open>u16\<close>, \<open>u64\<close>, \<open>usize\<close> as words), Rust's
    \<open>saturating_add\<close>/\<open>saturating_sub\<close> with their \<open>unat\<close> readings, and the weight
    \<open>alist_total\<close> of an association list, which models a \<open>HashMap\<close>.  New keys
    go to the end, so the list's order is insertion order: one of the iteration orders
    the source's hash-dependent order may produce.  The eviction of line 119 takes the
    first key in that order; the properties below hold whichever key it takes, except
    the traces of C7, C22 and C29, which evict from a table with a single entry.
  \<^item> \<open>JumpHash\<close>: the jump consistent hash of the Uniform mode (\<open>jump_loop\<close>,
    \<open>jump_slot\<close>), modelled from the specification since the crate is not in the
    repository; the loop is a \<open>function\<close> whose termination is proved with the
    measure \<open>n - j\<close>.  Properties C15 (the slot is below the slot count) and C16
    (consistency under one more slot).
  \<^item> \<open>Pending_Query\<close>: the records of \<open>pending_query.rs\<close> (\<open>pending_query_key\<close>,
    \<open>pending_query\<close>, \<open>pending_query_new\<close>) and of the queries they refer to, the
    table type and the effects on sockets (\<open>io_effect\<close>).
  \<^item> \<open>Upstream\<close>: the registry \<open>addr \<Rightarrow> upstream_server option\<close> and the count
    updates \<open>pending_inc\<close>/\<open>pending_dec\<close>; \<open>record_failure\<close> and
    \<open>record_success\<close> from the specification (section 4.1).
  \<^item> \<open>Load_Balancer\<close>: \<open>pick_upstream\<close> with the live indices and the per-index load
    passed explicitly (the source reads an out-of-scope slice).  Properties C9 to C14:
    failure exactly when nothing is live, the choice is live, Uniform and P2 retries go
    to another server, P2 first attempts go to a least-loaded server, Fallback always
    takes the first live server; C26: every P2 attempt goes to one of the two
    least-loaded servers.
  \<^item> \<open>Pending_Table\<close>: \<open>cap_pending_queries\<close> and
    \<open>maybe_add_to_existing_pending_query\<close> over an extensible record
    \<open>pending_table\<close>, and the table invariant \<open>table_inv\<close> (unique keys, counter
    equal to the number of attached clients, no empty entry, at most
    \<open>max 1 max_waiting_clients\<close> clients) with one preservation lemma per
    operation.
  \<^item> \<open>Probe\<close>: \<open>maybe_send_probe_to_offline_servers\<close> as written.  Properties C17 and
    C18 record two findings: the probe's time stamp is written to a copy, so the rate
    limit never engages, and online servers are probed too.
  \<^item> \<open>Handler\<close>: the handler state (a \<open>pending_table\<close> extended with the registry, live
    indices, armed timers, channel identifiers, clock and metrics), the operations
    \<open>fut_process_client_query\<close>, \<open>fut_retry_query\<close>, \<open>first_attempt_timeout\<close>,
    \<open>retry_attempt_timeout\<close>, \<open>attempt_timer_fires\<close>, the response pipeline
    \<open>pending_query_completed\<close> (from the specification), the step relation
    \<open>handler_step\<close> with its reachable states, and an executable event step
    \<open>handler_event_step\<close>/\<open>run_events\<close> that agrees with the relation.  The
    invariant holds in every reachable state by rule induction (C1 to C3); C4 to C6
    describe coalescing, the all-down shortcut and degradation; C7 and C8 are two
    findings about retries (three sends of one pending query after an eviction, and a
    pending query stranded when the retry finds no live server).  The outcomes of
    \<open>fut_process_client_query\<close> and \<open>fut_retry_query\<close> are elimination rules
    (\<open>fut_process_client_query_InrE\<close>, \<open>fut_retry_query_InrE\<close>), one case per
    branch of the source that returns normally; the invariant proofs and the theories
    below reason by cases over them.
  \<^item> \<open>Timers\<close>: what each operation does to the armed timers, the registry's counts
    and the channel identifiers.  A weight (2 per first-attempt timer, 1 per retry
    timer) decreases with every firing: runs of timer firings are bounded by it (C19,
    termination), and from the initial state a run makes at most two upstream sends and
    two timer firings per client query (C20).  Channel identifiers are fresh and the
    armed timers' channels distinct in every reachable state (a lemma the theories below
    use).  Every armed attempt
    is counted in its server's \<open>pending_queries_count\<close> in runs shorter than
    \<open>2^64 - 1\<close> events, the bound under which the saturating increments never saturate
    (C21); C22 shows the count exceeding the number of pending queries after an eviction.
  \<^item> \<open>Abstract_Table\<close>: an abstract specification of the waiting clients (a map from
    keys to clients in arrival order, with admission under the limit, eviction and
    removal of a key as its steps) and the abstraction \<open>abs_table\<close> of the table.
    Every handler step from a reachable state is an abstract step (C23, refinement);
    \<open>maybe_add_to_existing_pending_query\<close> is the abstract attachment; registering a
    fresh key, sending it upstream and completing it answers that client alone and
    leaves the table, the waiting counter and the gauge exactly as they were (C25, round
    trip).
  \<^item> \<open>Handler_Errors\<close>: the two panics a client query reaches from any state, an index
    out of bounds when the query's list of upstream servers is shorter than a live index
    (C27) and the empty random range when no outbound socket is configured (C28); and a
    panic reached by a stale timer: after an eviction, the evicted query's first timer
    retries the new entry of the same key with the old query's list of servers (C29);
    and the panic of the retry itself (line 386): it indexes the query's list with the
    index it picks among the live indices, out of range after the live set changes
    (C32, reached by a run with a health event); line 415 reads the same index and
    is covered by the same guard.
  \<^item> \<open>Eviction_Free\<close>: the runs \<open>reachable_without_eviction\<close> in which every client
    query arrives while fewer than \<open>max_waiting_clients\<close> clients wait.  There every
    armed timer belongs to the pending query of its key (\<open>timer_key\<close>, the key the
    continuation looks up): the entry exists and its \<open>done_tx\<close> is the timer's channel
    (C30, invariant, by rule induction over the elimination rules of \<open>Handler\<close>).  As the
    channels are distinct, at most one timer is armed per entry, so timer firings from
    such a state send at most one query per pending query (C31); C7 and C29 show both
    failing after an eviction.
  \<^item> \<open>Gauge\<close>: the \<open>inflight_queries\<close> gauge equals the number of pending queries
    in every reachable state, evictions included (C24): each operation that inserts or
    removes an entry moves the gauge with it (lines 124, 283, 459 and the response
    pipeline), and the distinct keys of \<open>table_inv\<close> make each removal remove one entry.

  \<^bold>\<open>Modelling choices.\<close>  Panics (index out of range, empty random range, the failed
  \<open>assert!\<close>) are values of \<open>handler_error\<close>; every random choice is an input
  (\<open>rng_draw\<close>, with \<open>r mod len\<close> standing for a uniform draw); timer durations are
  abstracted, so any armed timer may fire at any moment, which over-approximates the
  timer wheel and makes every invariant hold for all timings.  A timer fires its
  continuation on a timeout and also when its \<open>done_tx\<close> is dropped, as
  \<open>tokio_timer\<close>'s \<open>timeout\<close> does on a cancelled oneshot.  Counters are \<open>usize\<close>
  and \<open>u64\<close> words with the wrap-around of \<open>fetch_add\<close>/\<open>fetch_sub\<close> and the
  saturation of \<open>saturating_*\<close>; C2 shows that \<open>waiting_clients_count\<close> never
  wraps, and C21 bounds the runs (fewer than \<open>2^64 - 1\<close> events) in which the
  pending counts cannot saturate.  No fuel is needed: every loop of the core is
  structural, the one unbounded loop (the jump hash) has a termination proof, and the
  cascades of timer continuations terminate by the weight of C19.

  \<^bold>\<open>Not modelled.\<close>  The listeners and the channel feeding the handler (I/O); the
  cache, codec and metrics beyond the counters the core updates; the RTT average and
  \<open>timeout_ms_est\<close> (durations are abstracted); \<open>prepare_send\<close> of
  \<open>upstream_server.rs\<close> (not in the repository); UDP send errors (sends succeed; the
  code ignores the primary send's result); the \<open>Clone\<close> implementation and the
  constructor's copies of shared handles (one handler state stands for all clones,
  which share it through \<open>Rc\<close> and \<open>Arc\<close>).  \<open>UpstreamServer\<close>'s own methods
  (\<open>record_failure\<close>, \<open>prepare_send\<close>, the RTT estimate) are in
  \<open>upstream_server.rs\<close>, outside the repository: \<open>record_failure\<close> and
  \<open>record_success\<close> follow the specification.

  \<^bold>\<open>Open directions.\<close>  Every function of the two source files is modelled;
  what remains are the \<open>use\<close> lines and the \<open>Clone\<close> implementation (see above).  Two
  properties are not proved: that every admitted client is eventually answered when
  the timers fire fairly, which needs a hypothesis on the live set because C8 strands an
  entry when the retry finds no live server; and an exact account of the registry's
  \<open>pending_queries_count\<close>, of which C21 proves the lower bound only, since responses
  (outside these files) and the discarded decrement of line 365 leave the counts above
  the armed attempts.
\<close>

end
